theory Spec2Isabelle
  imports Complex_Main "HOL-Library.Word"
begin

unbundle bit_operations_syntax

section \<open>Day One to Obsidian converter: the model of \<open>src/converter.js\<close>\<close>

text \<open>
  The class \<open>DayOneToObsidian\<close> is embedded method by method. Its fields (\<open>this\<close>) are
  a record that every mutating method returns updated; an exception is the left
  injection of a sum. JavaScript strings are lists of code units: the model uses
  \<^typ>\<open>string\<close>, so it covers the texts whose code units are below 256 (ASCII and
  Latin-1), and \<^const>\<open>length\<close> is JavaScript's \<open>.length\<close> on them.
\<close>

subsection \<open>Characters and string primitives\<close>

definition backslash :: char where
  "backslash = CHR 0x5C"

definition newline :: char where
  "newline = CHR 0x0A"

definition dquote :: char where
  "dquote = CHR 0x22"

text \<open>
  The regular-expression class \<open>\s\<close> (white space and line terminators) and the
  line terminators at which \<open>.\<close> stops and \<open>^\<close>, \<open>$\<close> anchor under the \<open>m\<close> flag,
  both cut down to code units below 256: TAB, LF, VT, FF, CR, SP, NBSP.
\<close>

definition isSpace :: "char \<Rightarrow> bool" where
  "isSpace c = (c = CHR 0x09 \<or> c = CHR 0x0A \<or> c = CHR 0x0B \<or> c = CHR 0x0C
     \<or> c = CHR 0x0D \<or> c = CHR 0x20 \<or> c = CHR 0xA0)"

definition isLineTerminator :: "char \<Rightarrow> bool" where
  "isLineTerminator c = (c = CHR 0x0A \<or> c = CHR 0x0D)"

text \<open>\<open>String.prototype.trim\<close>, \<open>startsWith\<close>, \<open>endsWith\<close>, \<open>includes\<close>, \<open>split\<close>.\<close>

definition trim :: "string \<Rightarrow> string" where
  "trim s = rev (dropWhile isSpace (rev (dropWhile isSpace s)))"

definition startsWith :: "string \<Rightarrow> string \<Rightarrow> bool" where
  "startsWith s p = (take (length p) s = p)"

definition endsWith :: "string \<Rightarrow> string \<Rightarrow> bool" where
  "endsWith s p = (length p \<le> length s \<and> drop (length s - length p) s = p)"

fun includes_str :: "string \<Rightarrow> string \<Rightarrow> bool" where
  "includes_str [] p = (p = [])"
| "includes_str (c # cs) p = (startsWith (c # cs) p \<or> includes_str cs p)"

fun splitOn :: "char \<Rightarrow> string \<Rightarrow> string list" where
  "splitOn d [] = [[]]"
| "splitOn d (c # cs) =
     (if c = d then [] # splitOn d cs
      else case splitOn d cs of
             l # ls \<Rightarrow> (c # l) # ls
           | [] \<Rightarrow> [[c]])"

subsection \<open>hashString\<close>

text \<open>
  \<open>hash\<close> is kept in the range of a 32-bit integer by \<open>hash & hash\<close> after every
  step, and \<open>hash << 5\<close> is a 32-bit shift, so the accumulator is a \<^typ>\<open>32 word\<close>;
  the intermediate sums are exact in a double. \<open>toString(16)\<close> prints the signed
  value: a minus sign and the magnitude for a negative hash.
\<close>

definition hexChar :: "nat \<Rightarrow> char" where
  "hexChar n = ''0123456789abcdef'' ! n"

fun hexDigits :: "nat \<Rightarrow> string" where
  "hexDigits n =
     (if n < 16 then [hexChar n] else hexDigits (n div 16) @ [hexChar (n mod 16)])"

definition toString16 :: "int \<Rightarrow> string" where
  "toString16 i = (if i < 0 then CHR ''-'' # hexDigits (nat (- i)) else hexDigits (nat i))"

definition hashStep :: "32 word \<Rightarrow> char \<Rightarrow> 32 word" where
  "hashStep hash c = (push_bit 5 hash - hash) + of_nat (of_char c)"

definition hashString :: "string \<Rightarrow> string" where
  "hashString str = toString16 (sint (foldl hashStep 0 str))"

subsection \<open>unescapeDayoneMarkdown\<close>

text \<open>
  One call \<open>text.replace(/\\d/g, 'd')\<close>: the scan goes left to right, a match of the
  two code units backslash, \<open>d\<close> is replaced by \<open>d\<close> and the scan goes on after it.
\<close>

fun replaceEscaped :: "char \<Rightarrow> string \<Rightarrow> string" where
  "replaceEscaped d [] = []"
| "replaceEscaped d [x] = [x]"
| "replaceEscaped d (x # y # r) =
     (if x = backslash \<and> y = d then d # replaceEscaped d r
      else x # replaceEscaped d (y # r))"

text \<open>The thirteen marks, in the order of the chained \<open>replace\<close> calls.\<close>

definition escapedMarks :: "char list" where
  "escapedMarks = [CHR ''.'', CHR ''-'', CHR ''('', CHR '')'', CHR ''['', CHR '']'', CHR ''#'',
     CHR ''>'', CHR ''_'', CHR ''*'', CHR 0x60, CHR ''~'', CHR ''!'']"

definition unescapeDayoneMarkdown :: "string \<Rightarrow> string" where
  "unescapeDayoneMarkdown text0 = foldl (\<lambda>t d. replaceEscaped d t) text0 escapedMarks"

subsection \<open>The data: entries, attachments and the converter's fields\<close>

text \<open>
  A field of the JSON that may be missing is an option; \<open>None\<close> stands for
  \<open>undefined\<close> and \<open>null\<close>, which every test of the code that reads such a field
  treats alike. Fields carry the type the export gives them (a string, a number, a
  list). An attachment's \<open>md5\<close> is not tested but printed, and a template literal
  prints \<open>undefined\<close> and \<open>null\<close> differently, so it keeps the two apart. The
  entry's \<open>text\<close> is \<open>entryText\<close> here, and an attachment's fields carry the prefix
  \<open>a_\<close>.
\<close>

datatype jsvalue = Undefined | Null | Str string

record attachment =
  a_identifier :: "string option"
  a_md5 :: jsvalue
  a_type :: "string option"

text \<open>
  What \<open>new Date(entry.creationDate)\<close> is: an invalid date, or a time with its UTC
  year, month (1 to 12) and day of the month.
\<close>

datatype jsdate = InvalidDate | UTCDate int nat nat

record weatherData =
  conditionsDescription :: "string option"
  temperatureCelsius :: "real option"
  relativeHumidity :: "real option"
  pressureMB :: "real option"
  windSpeedKPH :: "real option"
  windBearing :: "real option"
  visibilityKM :: "real option"
  moonPhaseCode :: "string option"

record entry =
  uuid :: "string option"
  entryText :: "string option"
  creationDate :: jsdate
  photos :: "attachment list option"
  videos :: "attachment list option"
  audios :: "attachment list option"
  pdfAttachments :: "attachment list option"
  weather :: "weatherData option"

text \<open>The values of \<open>photoMap\<close>: the object \<open>{ md5, type }\<close>.\<close>

datatype media = Media (md5: jsvalue) (type: string)

text \<open>
  The fields the constructor sets. \<open>photoMap\<close> is keyed by whatever
  \<open>identifier\<close> an attachment has, the missing one included.
\<close>

record converter =
  allowDuplicates :: bool
  photoMap :: "string option \<rightharpoonup> media"
  usedFilenames :: "string set"
  seenEntries :: "string \<rightharpoonup> string"
  skippedDuplicates :: nat

definition newConverter :: "bool \<Rightarrow> converter" where
  "newConverter allow = \<lparr> allowDuplicates = allow, photoMap = Map.empty, usedFilenames = {},
     seenEntries = Map.empty, skippedDuplicates = 0 \<rparr>"

text \<open>
  JavaScript's truthiness of an optional string or number, \<open>x || d\<close> on strings, and
  a value printed inside a template literal.
\<close>

definition truthyStr :: "string option \<Rightarrow> bool" where
  "truthyStr x = (case x of None \<Rightarrow> False | Some s \<Rightarrow> s \<noteq> [])"

definition truthyNum :: "real option \<Rightarrow> bool" where
  "truthyNum x = (case x of None \<Rightarrow> False | Some r \<Rightarrow> r \<noteq> 0)"

definition orElse :: "string option \<Rightarrow> string \<Rightarrow> string" where
  "orElse x d = (if truthyStr x then the x else d)"

definition printed :: "jsvalue \<Rightarrow> string" where
  "printed x = (case x of Undefined \<Rightarrow> ''undefined'' | Null \<Rightarrow> ''null'' | Str s \<Rightarrow> s)"

subsection \<open>shouldSkipDuplicate, recordEntry\<close>

definition shouldSkipDuplicate :: "converter \<Rightarrow> entry \<Rightarrow> bool" where
  "shouldSkipDuplicate this e =
     (if allowDuplicates this then False
      else if \<not> truthyStr (uuid e) then False
      else (let contentHash = hashString (orElse (entryText e) [])
            in case seenEntries this (the (uuid e)) of
                 Some h \<Rightarrow> h = contentHash
               | None \<Rightarrow> False))"

definition recordEntry :: "converter \<Rightarrow> entry \<Rightarrow> converter" where
  "recordEntry this e =
     (if \<not> truthyStr (uuid e) then this
      else this\<lparr> seenEntries :=
             (seenEntries this)(the (uuid e) \<mapsto> hashString (orElse (entryText e) [])) \<rparr>)"

subsection \<open>buildPhotoMap\<close>

text \<open>One \<open>for ... of\<close> loop over a list that may be missing, \<open>set\<close> on each element.\<close>

definition registerAll ::
  "(attachment \<Rightarrow> media) \<Rightarrow> attachment list option \<Rightarrow> (string option \<rightharpoonup> media)
     \<Rightarrow> (string option \<rightharpoonup> media)" where
  "registerAll f xs pm =
     (case xs of None \<Rightarrow> pm
      | Some l \<Rightarrow> foldl (\<lambda>m a. m(a_identifier a \<mapsto> f a)) pm l)"

definition buildPhotoMap :: "converter \<Rightarrow> entry \<Rightarrow> converter" where
  "buildPhotoMap this e =
     this\<lparr> photoMap :=
       registerAll (\<lambda>pdf. Media (a_md5 pdf) ''pdf'') (pdfAttachments e)
        (registerAll (\<lambda>audio. Media (a_md5 audio) (orElse (a_type audio) ''m4a'')) (audios e)
          (registerAll (\<lambda>video. Media (a_md5 video) (orElse (a_type video) ''mov'')) (videos e)
            (registerAll (\<lambda>photo. Media (a_md5 photo) (orElse (a_type photo) ''jpeg'')) (photos e)
              (photoMap this)))) \<rparr>"

subsection \<open>convertImageReferences\<close>

text \<open>
  The two regular expressions on \<open>dayone-moment\<close> placeholders have one shape: the
  literal opening, a greedy non-empty run of a character class, a closing parenthesis.
  Neither class holds the closing parenthesis, so giving back characters of the run never
  helps and the match is the run as far as it goes. \<open>matchMoment cls s\<close> is the match
  at the start of \<open>s\<close>: the captured run and the text after the match.
\<close>

definition momentOpen :: string where
  "momentOpen = ''![](dayone-moment://''"

definition matchMoment :: "(char \<Rightarrow> bool) \<Rightarrow> string \<Rightarrow> (string \<times> string) option" where
  "matchMoment cls s =
     (if startsWith s momentOpen then
        (let r = drop (length momentOpen) s; run = takeWhile cls r
         in case dropWhile cls r of
              c # rest \<Rightarrow> if run \<noteq> [] \<and> c = CHR '')'' then Some (run, rest) else None
            | [] \<Rightarrow> None)
      else None)"

lemma matchMoment_shorter:
  "matchMoment cls s = Some (run, rest) \<Longrightarrow> length rest < length s"
proof -
  assume m: "matchMoment cls s = Some (run, rest)"
  then obtain c where "dropWhile cls (drop (length momentOpen) s) = c # rest"
    by (auto simp: matchMoment_def Let_def split: if_splits list.splits)
  then have "length (dropWhile cls (drop (length momentOpen) s)) = Suc (length rest)"
    by simp
  moreover have "length (dropWhile cls (drop (length momentOpen) s)) \<le> length s"
    by (rule order_trans[OF length_dropWhile_le]) simp
  ultimately show ?thesis by simp
qed

text \<open>
  \<open>text.replace(re, f)\<close> with the \<open>g\<close> flag: at each position from the left the
  match is tried; a match is replaced by \<open>f\<close> of the captured run and the scan goes on
  after it, otherwise the character is kept.
\<close>

function replaceMoments :: "(char \<Rightarrow> bool) \<Rightarrow> (string \<Rightarrow> string) \<Rightarrow> string \<Rightarrow> string" where
  "replaceMoments cls f [] = []"
| "replaceMoments cls f (c # cs) =
     (case matchMoment cls (c # cs) of
        Some (run, rest) \<Rightarrow> f run @ replaceMoments cls f rest
      | None \<Rightarrow> c # replaceMoments cls f cs)"
  by pat_completeness auto
termination
  by (relation "measure (\<lambda>(cls, f, s). length s)") (auto dest: matchMoment_shorter)

definition isUpperHex :: "char \<Rightarrow> bool" where
  "isUpperHex c = (c \<in> set ''ABCDEF0123456789'')"

definition convertImageReferences :: "converter \<Rightarrow> string \<Rightarrow> string" where
  "convertImageReferences this text0 =
     replaceMoments isUpperHex
       (\<lambda>identifier0. case photoMap this (Some identifier0) of
            Some media0 \<Rightarrow> ''![['' @ printed (md5 media0) @ ''.'' @ type media0 @ '']]''
          | None \<Rightarrow> ''<!-- Missing media: '' @ identifier0 @ '' -->'')
       text0"

subsection \<open>extractTitle\<close>

text \<open>
  The heading pattern \<open>/^#\s+(.+?)(?:\n|\\n|$)/m\<close>, as a backtracking matcher runs it.
  \<open>lazyGroup\<close> is the group after its first character: it grows until a line feed,
  the two characters backslash and \<open>n\<close>, the end of the text or a line terminator
  follows. \<open>groupFrom\<close> asks for the first character, which \<open>.\<close> takes only if it is
  no line terminator. \<open>spacesThenGroup\<close> lets \<open>\s+\<close> take \<open>k\<close> characters and gives
  them back one by one while the group fails. \<open>headingSearch\<close> tries every position
  from the left; the flag says that the position starts a line.
\<close>

fun lazyGroup :: "string \<Rightarrow> string" where
  "lazyGroup [] = []"
| "lazyGroup (c # cs) =
     (if isLineTerminator c then []
      else if c = backslash \<and> (case cs of d # _ \<Rightarrow> d = CHR ''n'' | [] \<Rightarrow> False) then []
      else c # lazyGroup cs)"

definition groupFrom :: "string \<Rightarrow> string option" where
  "groupFrom s =
     (case s of [] \<Rightarrow> None
      | c # cs \<Rightarrow> if isLineTerminator c then None else Some (c # lazyGroup cs))"

fun spacesThenGroup :: "nat \<Rightarrow> string \<Rightarrow> string option" where
  "spacesThenGroup 0 r = None"
| "spacesThenGroup (Suc k) r =
     (case groupFrom (drop (Suc k) r) of
        Some g \<Rightarrow> Some g
      | None \<Rightarrow> spacesThenGroup k r)"

definition headingAt :: "string \<Rightarrow> string option" where
  "headingAt r = spacesThenGroup (length (takeWhile isSpace r)) r"

fun headingSearch :: "bool \<Rightarrow> string \<Rightarrow> string option" where
  "headingSearch lineStart [] = None"
| "headingSearch lineStart (c # cs) =
     (case (if lineStart \<and> c = CHR ''#'' then headingAt cs else None) of
        Some g \<Rightarrow> Some g
      | None \<Rightarrow> headingSearch (isLineTerminator c) cs)"

text \<open>\<open>.replace(/^#+\s*/, '')\<close>: without the \<open>m\<close> flag, at the start of the line only.\<close>

definition stripHeadingMarks :: "string \<Rightarrow> string" where
  "stripHeadingMarks s =
     (case s of [] \<Rightarrow> []
      | c # cs \<Rightarrow> if c = CHR ''#'' then dropWhile isSpace (dropWhile (\<lambda>x. x = CHR ''#'') s) else s)"

definition extractTitle :: "string option \<Rightarrow> string option" where
  "extractTitle t =
     (if \<not> truthyStr t then None
      else case headingSearch True (the t) of
        Some g \<Rightarrow> Some (trim (unescapeDayoneMarkdown g))
      | None \<Rightarrow>
         (case find (\<lambda>l. trim l \<noteq> []) (splitOn newline (the t)) of
            None \<Rightarrow> None
          | Some firstLine \<Rightarrow>
             (let title = trim (stripHeadingMarks
                    (replaceMoments (\<lambda>c. c \<noteq> CHR '')'') (\<lambda>run. []) firstLine))
              in if title = [] then None
                 else Some (take 50 (unescapeDayoneMarkdown title)))))"

subsection \<open>generateFilename\<close>

text \<open>
  \<open>date.toISOString().split('T')[0]\<close>: a \<open>RangeError\<close> on an invalid date; four
  digits for a year from 0 to 9999, a sign and six digits for any other.
\<close>

datatype error = JSZipNotLoaded | JsYamlNotLoaded | NoJSONFile | SyntaxError | TypeError | RangeError

definition digit :: "nat \<Rightarrow> char" where
  "digit n = ''0123456789'' ! (n mod 10)"

definition pad2 :: "nat \<Rightarrow> string" where
  "pad2 n = [digit (n div 10), digit n]"

definition pad4 :: "nat \<Rightarrow> string" where
  "pad4 n = [digit (n div 1000), digit (n div 100), digit (n div 10), digit n]"

definition pad6 :: "nat \<Rightarrow> string" where
  "pad6 n = [digit (n div 100000), digit (n div 10000), digit (n div 1000), digit (n div 100),
     digit (n div 10), digit n]"

definition isoDate :: "jsdate \<Rightarrow> error + string" where
  "isoDate d =
     (case d of
        InvalidDate \<Rightarrow> Inl RangeError
      | UTCDate y m dd \<Rightarrow>
          Inr ((if 0 \<le> y \<and> y \<le> 9999 then pad4 (nat y)
                else (if y < 0 then CHR ''-'' else CHR ''+'') # pad6 (nat \<bar>y\<bar>))
               @ ''-'' @ pad2 m @ ''-'' @ pad2 dd))"

text \<open>The characters the title loses, \<open>/[\/\\:*?"<>|]/g\<close>, and \<open>/\s+/g\<close> to one space.\<close>

definition hostile :: "char set" where
  "hostile = {CHR ''/'', backslash, CHR '':'', CHR ''*'', CHR ''?'', dquote, CHR ''<'', CHR ''>'',
     CHR ''|''}"

function collapseSpaces :: "string \<Rightarrow> string" where
  "collapseSpaces [] = []"
| "collapseSpaces (c # cs) =
     (if isSpace c then CHR '' '' # collapseSpaces (dropWhile isSpace cs)
      else c # collapseSpaces cs)"
  by pat_completeness auto
termination
  by (relation "measure length") (auto simp: le_imp_less_Suc length_dropWhile_le)

definition safeTitleOf :: "string \<Rightarrow> string" where
  "safeTitleOf title =
     take 50 (trim (collapseSpaces (map (\<lambda>c. if c \<in> hostile then CHR ''-'' else c) title)))"

text \<open>
  \<open>entry.uuid.slice(0, 8)\<close> throws a \<open>TypeError\<close> when the entry has no
  \<open>uuid\<close>.
\<close>

definition uuidSlice :: "entry \<Rightarrow> error + string" where
  "uuidSlice e = (case uuid e of None \<Rightarrow> Inl TypeError | Some u \<Rightarrow> Inr (take 8 u))"

definition generateFilename :: "converter \<Rightarrow> entry \<Rightarrow> error + (converter \<times> string)" where
  "generateFilename this e =
     (case isoDate (creationDate e) of
        Inl err \<Rightarrow> Inl err
      | Inr dateStr \<Rightarrow>
         (let title = extractTitle (entryText e) in
          case (if truthyStr title then Inr (dateStr @ '' '' @ safeTitleOf (the title))
                else case uuidSlice e of
                       Inl err \<Rightarrow> Inl err
                     | Inr u8 \<Rightarrow> Inr (dateStr @ '' '' @ u8)) of
            Inl err \<Rightarrow> Inl err
          | Inr baseFilename \<Rightarrow>
             (case (if baseFilename @ ''.md'' \<in> usedFilenames this
                    then case uuidSlice e of
                           Inl err \<Rightarrow> Inl err
                         | Inr u8 \<Rightarrow> Inr (baseFilename @ '' ('' @ u8 @ '').md'')
                    else Inr (baseFilename @ ''.md'')) of
                Inl err \<Rightarrow> Inl err
              | Inr filename \<Rightarrow>
                  Inr (this\<lparr> usedFilenames := insert filename (usedFilenames this) \<rparr>,
                       filename))))"

subsection \<open>buildFrontmatter: the weather block\<close>

text \<open>
  \<open>MOON_PHASES\<close> is the table of the source: the own properties of the object. The
  code reads it with \<open>MOON_PHASES[code]\<close>, and a property read on an object also
  finds what the object inherits from \<open>Object.prototype\<close>: for one of the names in
  \<open>objectPrototype\<close> the read gives the inherited member (a function, or for
  \<open>__proto__\<close> the prototype itself), which is truthy. \<open>getProperty\<close> is that read.
  The record \<open>weatherFm\<close> is the object \<open>weather\<close> that the block fills; a field
  that is \<open>None\<close> is a key that was not set.
\<close>

definition MOON_PHASES :: "(string \<times> string) list" where
  "MOON_PHASES =
     [(''new'', ''New Moon''),
      (''waxing-crescent'', ''Waxing Crescent''),
      (''first-quarter'', ''First Quarter''),
      (''waxing-gibbous'', ''Waxing Gibbous''),
      (''full'', ''Full Moon''),
      (''waning-gibbous'', ''Waning Gibbous''),
      (''last-quarter'', ''Last Quarter''),
      (''waning-crescent'', ''Waning Crescent'')]"

definition objectPrototype :: "string list" where
  "objectPrototype =
     [''constructor'', ''hasOwnProperty'', ''isPrototypeOf'', ''propertyIsEnumerable'',
      ''toLocaleString'', ''toString'', ''valueOf'', ''__proto__'', ''__defineGetter__'',
      ''__defineSetter__'', ''__lookupGetter__'', ''__lookupSetter__'']"

datatype property = Label string | Inherited string

definition getProperty :: "(string \<times> string) list \<Rightarrow> string \<Rightarrow> property option" where
  "getProperty table key =
     (case map_of table key of
        Some v \<Rightarrow> Some (Label v)
      | None \<Rightarrow> if key \<in> set objectPrototype then Some (Inherited key) else None)"

definition truthyProperty :: "property option \<Rightarrow> bool" where
  "truthyProperty x =
     (case x of None \<Rightarrow> False | Some (Label v) \<Rightarrow> v \<noteq> [] | Some (Inherited k) \<Rightarrow> True)"

record weatherFm =
  conditions :: "string option"
  temperature_c :: "real option"
  humidity :: "real option"
  pressure_mb :: "real option"
  wind_speed_kph :: "real option"
  wind_bearing :: "real option"
  visibility_km :: "real option"
  moon_phase :: "property option"

definition keepStr :: "string option \<Rightarrow> string option" where
  "keepStr x = (if truthyStr x then x else None)"

definition keepNum :: "real option \<Rightarrow> real option" where
  "keepNum x = (if truthyNum x then x else None)"

definition keepPositive :: "real option \<Rightarrow> real option" where
  "keepPositive x = (if truthyNum x \<and> the x > 0 then x else None)"

definition buildWeather :: "weatherData \<Rightarrow> weatherFm" where
  "buildWeather w =
     \<lparr> conditions = keepStr (conditionsDescription w),
       temperature_c = keepNum (temperatureCelsius w),
       humidity = keepPositive (relativeHumidity w),
       pressure_mb = keepNum (pressureMB w),
       wind_speed_kph = keepNum (windSpeedKPH w),
       wind_bearing = keepNum (windBearing w),
       visibility_km = keepPositive (visibilityKM w),
       moon_phase =
         (if truthyStr (moonPhaseCode w)
             \<and> truthyProperty (getProperty MOON_PHASES (the (moonPhaseCode w)))
          then getProperty MOON_PHASES (the (moonPhaseCode w))
          else None) \<rparr>"

text \<open>\<open>Object.keys(weather)\<close>, in the order the block sets them.\<close>

definition weatherKeys :: "weatherFm \<Rightarrow> string list" where
  "weatherKeys f =
     (if conditions f = None then [] else [''conditions''])
     @ (if temperature_c f = None then [] else [''temperature_c''])
     @ (if humidity f = None then [] else [''humidity''])
     @ (if pressure_mb f = None then [] else [''pressure_mb''])
     @ (if wind_speed_kph f = None then [] else [''wind_speed_kph''])
     @ (if wind_bearing f = None then [] else [''wind_bearing''])
     @ (if visibility_km f = None then [] else [''visibility_km''])
     @ (if moon_phase f = None then [] else [''moon_phase''])"

text \<open>The value of \<open>fm.weather\<close> after the block; \<open>None\<close> when the key is not set.\<close>

definition frontmatterWeather :: "entry \<Rightarrow> weatherFm option" where
  "frontmatterWeather e =
     (case weather e of
        None \<Rightarrow> None
      | Some w \<Rightarrow> if length (weatherKeys (buildWeather w)) > 0 then Some (buildWeather w) else None)"

subsection \<open>convertContent, convertEntry\<close>

text \<open>
  The YAML text comes from the library \<open>js-yaml\<close>, which is not part of the
  repository: \<open>yamlDump\<close> is \<open>window.jsyaml.dump\<close> applied to the object \<open>fm\<close> that
  \<open>buildFrontmatter\<close> fills from the entry, as a function of the entry.
  \<open>buildFrontmatter\<close> changes no field of the converter. The zero-width space that
  \<open>convertContent\<close> strips last is no code unit below 256, so that step changes no
  text of the model.
\<close>

type_synonym yamlDump = "entry \<Rightarrow> string"

definition buildFrontmatter :: "yamlDump \<Rightarrow> entry \<Rightarrow> string" where
  "buildFrontmatter dump e = ''---'' @ [newline] @ dump e @ ''---'' @ [newline, newline]"

definition convertContent :: "converter \<Rightarrow> entry \<Rightarrow> string" where
  "convertContent this e =
     convertImageReferences this (unescapeDayoneMarkdown (orElse (entryText e) []))"

definition convertEntry ::
  "yamlDump \<Rightarrow> converter \<Rightarrow> entry \<Rightarrow> error + (converter \<times> string \<times> string)" where
  "convertEntry dump this e =
     (let this1 = buildPhotoMap this e;
          frontmatter = buildFrontmatter dump e;
          content = convertContent this1 e
      in case generateFilename this1 e of
           Inl err \<Rightarrow> Inl err
         | Inr (this2, filename) \<Rightarrow> Inr (this2, filename, frontmatter @ content))"

subsection \<open>convert\<close>

text \<open>
  The output archive is the list of its paths with their contents, in the order of the
  first write; \<open>zipFile\<close> is \<open>outputZip.file(path, data)\<close>, which overwrites a path
  that is already there. (The folder records JSZip adds for \<open>entries/\<close> and
  \<open>attachments/\<close> are left out.)
\<close>

type_synonym archive = "(string \<times> string) list"

fun zipFile :: "archive \<Rightarrow> string \<Rightarrow> string \<Rightarrow> archive" where
  "zipFile [] path d = [(path, d)]"
| "zipFile ((p, x) # z) path d =
     (if p = path then (p, d) # z else (p, x) # zipFile z path d)"

text \<open>The loop's variables: the converter, \<open>outputZip\<close> and \<open>converted\<close>.\<close>

record run =
  conv :: converter
  outputZip :: archive
  converted :: nat

definition convertStep :: "yamlDump \<Rightarrow> run \<Rightarrow> entry \<Rightarrow> error + run" where
  "convertStep dump r e =
     (if shouldSkipDuplicate (conv r) e
      then Inr (r\<lparr> conv := (conv r)\<lparr> skippedDuplicates := skippedDuplicates (conv r) + 1 \<rparr> \<rparr>)
      else case convertEntry dump (conv r) e of
             Inl err \<Rightarrow> Inl err
           | Inr (this1, filename, content) \<Rightarrow>
               Inr \<lparr> conv = (if \<not> allowDuplicates this1 then recordEntry this1 e else this1),
                     outputZip = zipFile (outputZip r) (''entries/'' @ filename) content,
                     converted = converted r + 1 \<rparr>)"

fun convertEntries :: "yamlDump \<Rightarrow> run \<Rightarrow> entry list \<Rightarrow> error + run" where
  "convertEntries dump r [] = Inr r"
| "convertEntries dump r (e # es) =
     (case convertStep dump r e of
        Inl err \<Rightarrow> Inl err
      | Inr r1 \<Rightarrow> convertEntries dump r1 es)"

text \<open>
  The input archive as JSZip has loaded it: \<open>inputZip.files\<close> in key order, each
  record with its name (the key), its \<open>dir\<close> flag and its content. The names are the
  keys of an object, so no two records share one, and the name of a directory ends in a
  slash. The parsed
  journal is \<open>null\<close> or a value with an \<open>entries\<close> array that may be missing. The
  environment holds what the page provides: whether \<open>window.JSZip\<close> is there,
  \<open>window.jsyaml\<close> if it is, and \<open>JSON.parse\<close>, which gives \<open>None\<close> where it
  throws.
\<close>

record zipObject =
  name :: string
  dir :: bool
  data :: string

datatype journalData = JsonNull | JsonValue "entry list option"

record environment =
  hasJSZip :: bool
  jsyaml :: "yamlDump option"
  jsonParse :: "string \<Rightarrow> journalData option"

definition mediaFolders :: "string list" where
  "mediaFolders = [''photos'', ''videos'', ''audios'', ''pdfs'']"

definition isMediaFile :: "zipObject \<Rightarrow> bool" where
  "isMediaFile f =
     (if dir f then False
      else list_ex (\<lambda>folder. includes_str (name f) (''/'' @ folder @ ''/'')
                           \<or> startsWith (name f) (folder @ ''/'')) mediaFolders)"

definition copyMedia :: "zipObject list \<Rightarrow> archive" where
  "copyMedia files =
     foldl (\<lambda>z f. zipFile z (''attachments/'' @ last (splitOn (CHR ''/'') (name f))) (data f))
       [] (filter isMediaFile files)"

definition convert :: "environment \<Rightarrow> converter \<Rightarrow> zipObject list \<Rightarrow> error + run" where
  "convert env this files =
     (if \<not> hasJSZip env then Inl JSZipNotLoaded
      else case jsyaml env of
        None \<Rightarrow> Inl JsYamlNotLoaded
      | Some dump \<Rightarrow>
         (let jsonFiles = filter (\<lambda>f. endsWith (name f) ''.json'') files in
          if length jsonFiles = 0 then Inl NoJSONFile
          else case jsonParse env (data (hd jsonFiles)) of
            None \<Rightarrow> Inl SyntaxError
          | Some JsonNull \<Rightarrow> Inl TypeError
          | Some (JsonValue es) \<Rightarrow>
              convertEntries dump
                \<lparr> conv = this, outputZip = copyMedia files, converted = 0 \<rparr>
                (case es of None \<Rightarrow> [] | Some entries \<Rightarrow> entries)))"

section \<open>Properties\<close>

subsection \<open>Unescaping\<close>

text \<open>Two given code units stand next to each other somewhere in a text.\<close>

fun adjacent :: "char \<Rightarrow> char \<Rightarrow> string \<Rightarrow> bool" where
  "adjacent a b (x # y # r) = ((x = a \<and> y = b) \<or> adjacent a b (y # r))"
| "adjacent a b _ = False"

text \<open>Three given code units stand next to each other somewhere in a text.\<close>

fun adjacent3 :: "char \<Rightarrow> char \<Rightarrow> char \<Rightarrow> string \<Rightarrow> bool" where
  "adjacent3 a b c (x # y # z # r) = ((x = a \<and> y = b \<and> z = c) \<or> adjacent3 a b c (y # z # r))"
| "adjacent3 a b c _ = False"

text \<open>Somewhere in the text two backslashes stand before one of the marks of the code.\<close>

definition doubleBeforeMark :: "string \<Rightarrow> bool" where
  "doubleBeforeMark t = list_ex (\<lambda>m. adjacent3 backslash backslash m t) escapedMarks"

text \<open>
  A text of marks, some of them escaped: the flag says whether the mark carries its
  backslash.
\<close>

fun renderTokens :: "(bool \<times> char) list \<Rightarrow> string" where
  "renderTokens [] = []"
| "renderTokens ((b, m) # toks) = (if b then [backslash, m] else [m]) @ renderTokens toks"

lemma adjacent_Cons:
  "adjacent a b (x # t) = ((x = a \<and> t \<noteq> [] \<and> hd t = b) \<or> adjacent a b t)"
  by (cases t) auto

lemma adjacent3_Cons:
  "adjacent3 a b c (x # t) = ((x = a \<and> (\<exists>r. t = b # c # r)) \<or> adjacent3 a b c t)"
proof (cases t)
  case Nil then show ?thesis by simp
next
  case (Cons y u)
  then show ?thesis by (cases u) auto
qed

lemma adjacent3_adjacent: "adjacent3 a b c t \<Longrightarrow> adjacent b c t"
  by (induction a b c t rule: adjacent3.induct) auto

lemma replaceEscaped_step:
  "replaceEscaped d (y # r) =
     (if y = backslash \<and> (\<exists>r1. r = d # r1) then d # replaceEscaped d (tl r)
      else y # replaceEscaped d r)"
  by (cases r) auto

lemma replaceEscaped_plain:
  "y \<noteq> backslash \<Longrightarrow> replaceEscaped d (y # r) = y # replaceEscaped d r"
  by (cases r) simp_all

lemma hd_replaceEscaped:
  "hd (replaceEscaped d (y # r)) = (if y = backslash \<and> (\<exists>r1. r = d # r1) then d else y)"
  by (auto simp: replaceEscaped_step)

lemma replaceEscaped_not_Nil: "replaceEscaped d (y # r) \<noteq> []"
  by (simp add: replaceEscaped_step)

text \<open>A pass for \<open>d\<close> creates no escaped mark other than \<open>d\<close>.\<close>

lemma pair_not_created:
  "d \<noteq> backslash \<Longrightarrow> c \<noteq> d \<Longrightarrow> adjacent backslash c (replaceEscaped d t)
   \<Longrightarrow> adjacent backslash c t"
proof (induction d t rule: replaceEscaped.induct)
  case (3 d x y r)
  show ?case
  proof (cases "x = backslash \<and> y = d")
    case True
    with "3.prems" have "adjacent backslash c (replaceEscaped d r)"
      by (simp add: adjacent_Cons)
    with True "3.IH"(1) "3.prems" have "adjacent backslash c r" by blast
    then show ?thesis by (simp add: adjacent_Cons)
  next
    case False
    then have eq: "replaceEscaped d (x # y # r) = x # replaceEscaped d (y # r)" by auto
    from "3.prems"(3) consider
      "x = backslash" "hd (replaceEscaped d (y # r)) = c"
      | "adjacent backslash c (replaceEscaped d (y # r))"
      unfolding eq adjacent_Cons by blast
    then show ?thesis
    proof cases
      case 1
      with "3.prems"(2) have "y = c" by (auto simp: hd_replaceEscaped split: if_splits)
      with 1 show ?thesis by simp
    next
      case 2
      with False "3.IH"(2) "3.prems" have "adjacent backslash c (y # r)" by blast
      then show ?thesis by simp
    qed
  qed
qed simp_all

text \<open>After the pass for \<open>d\<close> an escaped \<open>d\<close> is left only where two backslashes stood before it.\<close>

lemma pair_left_only_after_double:
  "d \<noteq> backslash \<Longrightarrow> adjacent backslash d (replaceEscaped d t)
   \<Longrightarrow> adjacent3 backslash backslash d t"
proof (induction d t rule: replaceEscaped.induct)
  case (3 d x y r)
  show ?case
  proof (cases "x = backslash \<and> y = d")
    case True
    with "3.prems" have "adjacent backslash d (replaceEscaped d r)"
      by (simp add: adjacent_Cons)
    with True "3.IH"(1) "3.prems" have "adjacent3 backslash backslash d r" by blast
    then show ?thesis by (simp add: adjacent3_Cons)
  next
    case False
    then have eq: "replaceEscaped d (x # y # r) = x # replaceEscaped d (y # r)" by auto
    from "3.prems"(2) consider
      "x = backslash" "hd (replaceEscaped d (y # r)) = d"
      | "adjacent backslash d (replaceEscaped d (y # r))"
      unfolding eq adjacent_Cons by blast
    then show ?thesis
    proof cases
      case 1
      with False have "y = backslash \<and> (\<exists>r1. r = d # r1)"
        by (auto simp: hd_replaceEscaped split: if_splits)
      with 1 show ?thesis by auto
    next
      case 2
      with False "3.IH"(2) "3.prems" have "adjacent3 backslash backslash d (y # r)" by blast
      then show ?thesis by (simp add: adjacent3_Cons)
    qed
  qed
qed simp_all

text \<open>No pass creates two backslashes before a mark.\<close>

lemma triple_not_created:
  "d \<noteq> backslash \<Longrightarrow> adjacent3 backslash backslash m (replaceEscaped d t)
   \<Longrightarrow> adjacent3 backslash backslash m t"
proof (cases "m = d")
  case True
  assume "d \<noteq> backslash" "adjacent3 backslash backslash m (replaceEscaped d t)"
  with True show ?thesis
    using adjacent3_adjacent pair_left_only_after_double by blast
next
  case False
  assume "d \<noteq> backslash" "adjacent3 backslash backslash m (replaceEscaped d t)"
  then show ?thesis using False
  proof (induction d t rule: replaceEscaped.induct)
    case (3 d x y r)
    show ?case
    proof (cases "x = backslash \<and> y = d")
      case True
      with "3.prems" have "adjacent3 backslash backslash m (replaceEscaped d r)"
        by (simp add: adjacent3_Cons)
      with True "3.IH"(1) "3.prems" have "adjacent3 backslash backslash m r" by blast
      then show ?thesis by (simp add: adjacent3_Cons)
    next
      case False
      then have eq: "replaceEscaped d (x # y # r) = x # replaceEscaped d (y # r)" by auto
      from "3.prems"(2) consider
        r2 where "x = backslash" "replaceEscaped d (y # r) = backslash # m # r2"
        | "adjacent3 backslash backslash m (replaceEscaped d (y # r))"
        unfolding eq adjacent3_Cons by blast
      then show ?thesis
      proof cases
        case 1
        from 1(2) "3.prems"(1) have y: "y = backslash" and nm: "\<not> (\<exists>r1. r = d # r1)"
          and rest: "replaceEscaped d r = m # r2"
          by (auto simp: replaceEscaped_step split: if_splits)
        from rest obtain z r1 where r: "r = z # r1" by (cases r) auto
        with rest "3.prems"(3) have "z = m"
          by (auto simp: replaceEscaped_step split: if_splits)
        with 1 y r show ?thesis by simp
      next
        case 2
        with False "3.IH"(2) "3.prems" have "adjacent3 backslash backslash m (y # r)" by blast
        then show ?thesis by (simp add: adjacent3_Cons)
      qed
    qed
  qed simp_all
qed

text \<open>A pass for another mark keeps an escaped mark.\<close>

lemma pair_kept:
  "d \<noteq> m \<Longrightarrow> m \<noteq> backslash \<Longrightarrow> d \<noteq> backslash \<Longrightarrow> adjacent backslash m t
   \<Longrightarrow> adjacent backslash m (replaceEscaped d t)"
proof (induction d t rule: replaceEscaped.induct)
  case (3 d x y r)
  show ?case
  proof (cases "x = backslash \<and> y = d")
    case True
    with "3.prems" have "adjacent backslash m r" by (auto simp: adjacent_Cons)
    with True "3.IH"(1) "3.prems" have "adjacent backslash m (replaceEscaped d r)" by blast
    with True show ?thesis by (simp add: adjacent_Cons)
  next
    case False
    then have eq: "replaceEscaped d (x # y # r) = x # replaceEscaped d (y # r)" by auto
    from "3.prems"(4) consider "x = backslash" "y = m" | "adjacent backslash m (y # r)"
      by auto
    then show ?thesis
    proof cases
      case 1
      with "3.prems"(2) show ?thesis
        unfolding eq by (simp add: replaceEscaped_plain)
    next
      case 2
      with False "3.IH"(2) "3.prems" have "adjacent backslash m (replaceEscaped d (y # r))" by blast
      then show ?thesis unfolding eq adjacent_Cons by blast
    qed
  qed
qed simp_all

text \<open>A pass for another mark keeps two backslashes before a mark.\<close>

lemma triple_kept:
  "d \<noteq> m \<Longrightarrow> m \<noteq> backslash \<Longrightarrow> d \<noteq> backslash \<Longrightarrow> adjacent3 backslash backslash m t
   \<Longrightarrow> adjacent3 backslash backslash m (replaceEscaped d t)"
proof (induction d t rule: replaceEscaped.induct)
  case (3 d x y r)
  show ?case
  proof (cases "x = backslash \<and> y = d")
    case True
    with "3.prems" have "adjacent3 backslash backslash m r" by (auto simp: adjacent3_Cons)
    with True "3.IH"(1) "3.prems" have "adjacent3 backslash backslash m (replaceEscaped d r)" by blast
    with True show ?thesis by (simp add: adjacent3_Cons)
  next
    case False
    then have eq: "replaceEscaped d (x # y # r) = x # replaceEscaped d (y # r)" by auto
    from "3.prems"(4) consider r1 where "x = backslash" "y = backslash" "r = m # r1"
      | "adjacent3 backslash backslash m (y # r)"
      by (auto simp: adjacent3_Cons)
    then show ?thesis
    proof cases
      case 1
      with "3.prems" have "replaceEscaped d (y # r) = backslash # m # replaceEscaped d r1"
        by (simp add: replaceEscaped_plain)
      with 1 show ?thesis unfolding eq by simp
    next
      case 2
      with False "3.IH"(2) "3.prems" have "adjacent3 backslash backslash m (replaceEscaped d (y # r))" by blast
      then show ?thesis unfolding eq adjacent3_Cons by blast
    qed
  qed
qed simp_all

text \<open>The pass for \<open>d\<close> turns two backslashes before \<open>d\<close> into one.\<close>

lemma double_leaves_pair:
  "d \<noteq> backslash \<Longrightarrow> adjacent3 backslash backslash d t
   \<Longrightarrow> adjacent backslash d (replaceEscaped d t)"
proof (induction d t rule: replaceEscaped.induct)
  case (3 d x y r)
  show ?case
  proof (cases "x = backslash \<and> y = d")
    case True
    with "3.prems" have "adjacent3 backslash backslash d r" by (auto simp: adjacent3_Cons)
    with True "3.IH"(1) "3.prems" have "adjacent backslash d (replaceEscaped d r)" by blast
    with True show ?thesis by (simp add: adjacent_Cons)
  next
    case False
    then have eq: "replaceEscaped d (x # y # r) = x # replaceEscaped d (y # r)" by auto
    from "3.prems"(2) consider r1 where "x = backslash" "y = backslash" "r = d # r1"
      | "adjacent3 backslash backslash d (y # r)"
      by (auto simp: adjacent3_Cons)
    then show ?thesis
    proof cases
      case 1
      then have "replaceEscaped d (y # r) = d # replaceEscaped d r1" by simp
      with 1 show ?thesis unfolding eq by simp
    next
      case 2
      with False "3.IH"(2) "3.prems" have "adjacent backslash d (replaceEscaped d (y # r))" by blast
      then show ?thesis unfolding eq adjacent_Cons by blast
    qed
  qed
qed simp_all

text \<open>A pass never lengthens the text, and shortens it where it finds its escaped mark.\<close>

lemma length_replaceEscaped: "length (replaceEscaped d t) \<le> length t"
  by (induction d t rule: replaceEscaped.induct) auto

lemma length_replaceEscaped_less:
  "adjacent backslash d t \<Longrightarrow> length (replaceEscaped d t) < length t"
proof (induction d t rule: replaceEscaped.induct)
  case (3 d x y r)
  show ?case
  proof (cases "x = backslash \<and> y = d")
    case True
    then show ?thesis using length_replaceEscaped[of d r] by simp
  next
    case False
    with "3.prems" have "adjacent backslash d (y # r)" by auto
    with False "3.IH"(2) show ?thesis by auto
  qed
qed simp_all

lemma replaceEscaped_id:
  "\<not> adjacent backslash d t \<Longrightarrow> replaceEscaped d t = t"
  by (induction d t rule: replaceEscaped.induct) auto

lemma fold_replace_id:
  "\<forall>c\<in>set ds. \<not> adjacent backslash c t \<Longrightarrow> foldl (\<lambda>t d. replaceEscaped d t) t ds = t"
proof (induction ds)
  case Nil then show ?case by simp
next
  case (Cons d ds)
  then have 1: "replaceEscaped d t = t" by (simp add: replaceEscaped_id)
  from Cons have 2: "foldl (\<lambda>t d. replaceEscaped d t) t ds = t" by simp
  show ?case unfolding foldl_Cons 1 2 ..
qed

lemma backslash_not_mark: "backslash \<notin> set escapedMarks"
  by (simp add: escapedMarks_def backslash_def)

lemma adjacent3_iff: "adjacent3 a b c t \<longleftrightarrow> (\<exists>pre post. t = pre @ a # b # c # post)"
proof (induction t)
  case Nil then show ?case by simp
next
  case (Cons x t)
  show ?case
  proof
    assume "adjacent3 a b c (x # t)"
    then consider r where "x = a" "t = b # c # r" | "adjacent3 a b c t"
      unfolding adjacent3_Cons by blast
    then show "\<exists>pre post. x # t = pre @ a # b # c # post"
    proof cases
      case 1 then show ?thesis by (intro exI[of _ "[]"] exI[of _ r]) simp
    next
      case 2
      with Cons.IH obtain pre post where "t = pre @ a # b # c # post" by auto
      then have "x # t = (x # pre) @ a # b # c # post" by simp
      then show ?thesis by blast
    qed
  next
    assume "\<exists>pre post. x # t = pre @ a # b # c # post"
    then obtain pre post where e: "x # t = pre @ a # b # c # post" by auto
    show "adjacent3 a b c (x # t)"
    proof (cases pre)
      case Nil with e show ?thesis by simp
    next
      case (Cons p ps)
      with e have "t = ps @ a # b # c # post" by simp
      with Cons.IH have "adjacent3 a b c t" by blast
      then show ?thesis by (simp add: adjacent3_Cons)
    qed
  qed
qed

lemma doubleBeforeMark_iff:
  "doubleBeforeMark t \<longleftrightarrow>
     (\<exists>pre m post. m \<in> set escapedMarks \<and> t = pre @ backslash # backslash # m # post)"
  unfolding doubleBeforeMark_def list_ex_iff adjacent3_iff by blast

lemma distinct_marks: "distinct escapedMarks"
  by (simp add: escapedMarks_def)

lemma fold_triple_not_created:
  "backslash \<notin> set ds \<Longrightarrow> \<not> adjacent3 backslash backslash m t
   \<Longrightarrow> \<not> adjacent3 backslash backslash m (foldl (\<lambda>t d. replaceEscaped d t) t ds)"
proof (induction ds arbitrary: t)
  case Nil then show ?case by simp
next
  case (Cons d ds)
  then have "\<not> adjacent3 backslash backslash m (replaceEscaped d t)"
    using triple_not_created[of d m t] by auto
  with Cons show ?case by simp
qed

lemma fold_no_pair_left:
  "backslash \<notin> set ds \<Longrightarrow> \<forall>m\<in>set ds. \<not> adjacent3 backslash backslash m t \<Longrightarrow> c \<in> set ds
   \<Longrightarrow> \<not> adjacent backslash c (foldl (\<lambda>t d. replaceEscaped d t) t ds)"
proof (induction ds arbitrary: c rule: rev_induct)
  case Nil then show ?case by simp
next
  case (snoc d ds)
  let ?u = "foldl (\<lambda>t d. replaceEscaped d t) t ds"
  from snoc.prems have d: "d \<noteq> backslash" and nb: "backslash \<notin> set ds" by auto
  show ?case
  proof (cases "c = d")
    case True
    from snoc.prems have "\<not> adjacent3 backslash backslash d t" by simp
    then have "\<not> adjacent3 backslash backslash d ?u"
      using fold_triple_not_created[OF nb] by blast
    then have "\<not> adjacent backslash d (replaceEscaped d ?u)"
      using pair_left_only_after_double[OF d] by blast
    with True show ?thesis by simp
  next
    case False
    with snoc.prems have "c \<in> set ds" by simp
    with snoc.IH nb snoc.prems have "\<not> adjacent backslash c ?u" by simp
    then have "\<not> adjacent backslash c (replaceEscaped d ?u)"
      using pair_not_created[OF d False] by blast
    then show ?thesis by simp
  qed
qed

lemma fold_triple_kept:
  "\<forall>d\<in>set ds. d \<noteq> m \<and> d \<noteq> backslash \<Longrightarrow> m \<noteq> backslash
   \<Longrightarrow> adjacent3 backslash backslash m t
   \<Longrightarrow> adjacent3 backslash backslash m (foldl (\<lambda>t d. replaceEscaped d t) t ds)"
  by (induction ds arbitrary: t) (simp_all add: triple_kept)

lemma fold_pair_kept:
  "\<forall>d\<in>set ds. d \<noteq> m \<and> d \<noteq> backslash \<Longrightarrow> m \<noteq> backslash
   \<Longrightarrow> adjacent backslash m t
   \<Longrightarrow> adjacent backslash m (foldl (\<lambda>t d. replaceEscaped d t) t ds)"
  by (induction ds arbitrary: t) (simp_all add: pair_kept)

lemma fold_length: "length (foldl (\<lambda>t d. replaceEscaped d t) t ds) \<le> length t"
proof (induction ds arbitrary: t)
  case Nil then show ?case by simp
next
  case (Cons d ds)
  have "length (foldl (\<lambda>t d. replaceEscaped d t) (replaceEscaped d t) ds)
      \<le> length (replaceEscaped d t)" by (rule Cons.IH)
  also have "\<dots> \<le> length t" by (rule length_replaceEscaped)
  finally show ?case by simp
qed

lemma marks_split:
  assumes "m \<in> set escapedMarks"
  obtains before after where "escapedMarks = before @ m # after"
    "\<forall>d\<in>set before. d \<noteq> m \<and> d \<noteq> backslash" "\<forall>d\<in>set after. d \<noteq> m \<and> d \<noteq> backslash"
    "m \<noteq> backslash"
proof -
  from assms obtain before after where e: "escapedMarks = before @ m # after"
    by (auto simp: in_set_conv_decomp)
  from distinct_marks have "distinct (before @ m # after)" unfolding e .
  then have "m \<notin> set before" "m \<notin> set after" by auto
  moreover from backslash_not_mark have "backslash \<notin> set (before @ m # after)"
    unfolding e .
  then have "backslash \<notin> set before" "backslash \<notin> set after" "m \<noteq> backslash" by auto
  ultimately show ?thesis using e that by blast
qed

lemma unescape_leaves_pair:
  assumes "m \<in> set escapedMarks" "adjacent3 backslash backslash m t"
  shows "adjacent backslash m (unescapeDayoneMarkdown t)"
proof -
  from marks_split[OF assms(1)] obtain before after where
    e: "escapedMarks = before @ m # after"
    and b: "\<forall>d\<in>set before. d \<noteq> m \<and> d \<noteq> backslash"
    and a: "\<forall>d\<in>set after. d \<noteq> m \<and> d \<noteq> backslash"
    and m: "m \<noteq> backslash" by blast
  let ?f = "\<lambda>t d. replaceEscaped d t"
  have "adjacent3 backslash backslash m (foldl ?f t before)"
    by (rule fold_triple_kept[OF b m assms(2)])
  then have "adjacent backslash m (replaceEscaped m (foldl ?f t before))"
    using double_leaves_pair m by blast
  then have "adjacent backslash m (foldl ?f (replaceEscaped m (foldl ?f t before)) after)"
    by (rule fold_pair_kept[OF a m])
  then show ?thesis by (simp add: unescapeDayoneMarkdown_def e)
qed

lemma unescape_shortens:
  assumes "m \<in> set escapedMarks" "adjacent backslash m s"
  shows "length (unescapeDayoneMarkdown s) < length s"
proof -
  from marks_split[OF assms(1)] obtain before after where
    e: "escapedMarks = before @ m # after"
    and b: "\<forall>d\<in>set before. d \<noteq> m \<and> d \<noteq> backslash"
    and a: "\<forall>d\<in>set after. d \<noteq> m \<and> d \<noteq> backslash"
    and m: "m \<noteq> backslash" by blast
  let ?f = "\<lambda>t d. replaceEscaped d t"
  have "adjacent backslash m (foldl ?f s before)"
    by (rule fold_pair_kept[OF b m assms(2)])
  then have "length (replaceEscaped m (foldl ?f s before)) < length (foldl ?f s before)"
    by (rule length_replaceEscaped_less)
  also have "\<dots> \<le> length s" by (rule fold_length)
  finally have "length (replaceEscaped m (foldl ?f s before)) < length s" .
  moreover have "length (foldl ?f (replaceEscaped m (foldl ?f s before)) after)
      \<le> length (replaceEscaped m (foldl ?f s before))" by (rule fold_length)
  ultimately show ?thesis by (simp add: unescapeDayoneMarkdown_def e)
qed

lemma unescape_idem_iff:
  "unescapeDayoneMarkdown (unescapeDayoneMarkdown t) = unescapeDayoneMarkdown t
     \<longleftrightarrow> \<not> doubleBeforeMark t"
proof
  assume i: "unescapeDayoneMarkdown (unescapeDayoneMarkdown t) = unescapeDayoneMarkdown t"
  show "\<not> doubleBeforeMark t"
  proof
    assume "doubleBeforeMark t"
    then obtain m where m: "m \<in> set escapedMarks" "adjacent3 backslash backslash m t"
      by (auto simp: doubleBeforeMark_def list_ex_iff)
    from unescape_shortens[OF m(1) unescape_leaves_pair[OF m]] i show False by simp
  qed
next
  assume "\<not> doubleBeforeMark t"
  then have n: "\<forall>m\<in>set escapedMarks. \<not> adjacent3 backslash backslash m t"
    by (simp add: doubleBeforeMark_def list_ex_iff)
  have "\<forall>c\<in>set escapedMarks.
      \<not> adjacent backslash c (foldl (\<lambda>t d. replaceEscaped d t) t escapedMarks)"
  proof
    fix c assume "c \<in> set escapedMarks"
    then show "\<not> adjacent backslash c (foldl (\<lambda>t d. replaceEscaped d t) t escapedMarks)"
      by (rule fold_no_pair_left[OF backslash_not_mark n])
  qed
  then show "unescapeDayoneMarkdown (unescapeDayoneMarkdown t) = unescapeDayoneMarkdown t"
    unfolding unescapeDayoneMarkdown_def by (rule fold_replace_id)
qed

text \<open>On a text of marks, a pass for \<open>d\<close> takes the backslash off every escaped \<open>d\<close>.\<close>

lemma replaceEscaped_tokens:
  "\<forall>(b, m)\<in>set toks. m \<noteq> backslash \<Longrightarrow>
   replaceEscaped d (renderTokens toks) = renderTokens (map (\<lambda>(b, m). (b \<and> m \<noteq> d, m)) toks)"
proof (induction toks)
  case Nil then show ?case by simp
next
  case (Cons tok toks)
  obtain b m where tok: "tok = (b, m)" by (cases tok)
  with Cons.prems have m: "m \<noteq> backslash" by simp
  from Cons have ih: "replaceEscaped d (renderTokens toks)
      = renderTokens (map (\<lambda>(b, m). (b \<and> m \<noteq> d, m)) toks)"
    by simp
  show ?case
  proof (cases b)
    case False
    with m ih tok show ?thesis
      by (simp add: replaceEscaped_plain)
  next
    case True
    show ?thesis
    proof (cases "m = d")
      case True
      with \<open>b\<close> ih tok show ?thesis by simp
    next
      case False
      with \<open>b\<close> m ih tok show ?thesis
        by (simp add: replaceEscaped_plain)
    qed
  qed
qed

lemma fold_tokens:
  "\<forall>(b, m)\<in>set toks. m \<noteq> backslash \<Longrightarrow>
   foldl (\<lambda>t d. replaceEscaped d t) (renderTokens toks) ds
     = renderTokens (map (\<lambda>(b, m). (b \<and> m \<notin> set ds, m)) toks)"
proof (induction ds arbitrary: toks)
  case Nil then show ?case by (simp add: case_prod_beta)
next
  case (Cons d ds)
  have inv: "\<forall>(b, m)\<in>set (map (\<lambda>(b, m). (b \<and> m \<noteq> d, m)) toks). m \<noteq> backslash"
    using Cons.prems by auto
  show ?case
    by (simp add: replaceEscaped_tokens[OF Cons.prems] Cons.IH[OF inv] case_prod_beta o_def)
qed

lemma unescape_escaped_marks:
  assumes "set ms \<subseteq> set escapedMarks"
  shows "unescapeDayoneMarkdown (concat (map (\<lambda>m. [backslash, m]) ms)) = ms"
proof -
  have 1: "concat (map (\<lambda>m. [backslash, m]) ms) = renderTokens (map (\<lambda>m. (True, m)) ms)"
    by (induction ms) simp_all
  have 2: "\<forall>(b, m)\<in>set (map (\<lambda>m. (True, m)) ms). m \<noteq> backslash"
    using assms backslash_not_mark by auto
  have 3: "map (\<lambda>(b, m). (b \<and> m \<notin> set escapedMarks, m)) (map (\<lambda>m. (True, m)) ms)
      = map (\<lambda>m. (False, m)) ms"
    using assms by auto
  have 4: "renderTokens (map (\<lambda>m. (False, m)) ms) = ms"
    by (induction ms) simp_all
  show ?thesis
    unfolding unescapeDayoneMarkdown_def 1 fold_tokens[OF 2] 3 4 ..
qed

text \<open>
  Claim C3, as the code has it. Unescaping is not idempotent on every text: a backslash
  before an escaped mark survives the first application and escapes the mark for the
  second. It is idempotent on exactly the texts that nowhere hold two backslashes followed
  by one of the thirteen marks of the code; and a text made only of escaped marks (each
  mark behind its backslash) is turned by one application into the marks without their
  backslashes.
\<close>

theorem unescape_idempotent_exactly_without_escaped_backslash:
  "(unescapeDayoneMarkdown (unescapeDayoneMarkdown t) = unescapeDayoneMarkdown t
      \<longleftrightarrow> \<not> doubleBeforeMark t)
   \<and> (set ms \<subseteq> set escapedMarks \<longrightarrow>
      unescapeDayoneMarkdown (concat (map (\<lambda>m. [backslash, m]) ms)) = ms)"
  using unescape_idem_iff unescape_escaped_marks by blast

theorem unescape_idempotent_witness:
  "\<not> doubleBeforeMark (''C:'' @ [backslash, backslash] @ ''Users'' @ [backslash] @ ''.x'')
   \<and> unescapeDayoneMarkdown (unescapeDayoneMarkdown
         (''C:'' @ [backslash, backslash] @ ''Users'' @ [backslash] @ ''.x''))
       = unescapeDayoneMarkdown (''C:'' @ [backslash, backslash] @ ''Users'' @ [backslash] @ ''.x'')
   \<and> unescapeDayoneMarkdown (''C:'' @ [backslash, backslash] @ ''Users'' @ [backslash] @ ''.x'')
       = ''C:'' @ [backslash, backslash] @ ''Users.x''
   \<and> set ''.-()[]#>_*~!'' \<subseteq> set escapedMarks
   \<and> unescapeDayoneMarkdown (concat (map (\<lambda>m. [backslash, m]) ''.-()[]#>_*~!'')) = ''.-()[]#>_*~!''"
proof -
  have a: "\<not> doubleBeforeMark (''C:'' @ [backslash, backslash] @ ''Users'' @ [backslash] @ ''.x'')"
    by (simp add: doubleBeforeMark_def escapedMarks_def backslash_def)
  have b: "set ''.-()[]#>_*~!'' \<subseteq> set escapedMarks"
    by (simp add: escapedMarks_def)
  have c: "unescapeDayoneMarkdown (''C:'' @ [backslash, backslash] @ ''Users'' @ [backslash] @ ''.x'')
       = ''C:'' @ [backslash, backslash] @ ''Users.x''"
    by (simp add: unescapeDayoneMarkdown_def escapedMarks_def backslash_def)
  from a b c
    unescape_idempotent_exactly_without_escaped_backslash
      [of "''C:'' @ [backslash, backslash] @ ''Users'' @ [backslash] @ ''.x''" "''.-()[]#>_*~!''"]
  show ?thesis by blast
qed

text \<open>The claim as the spec states it fails at the text backslash, backslash, full stop.\<close>

theorem unescape_not_idempotent:
  "doubleBeforeMark [backslash, backslash, CHR ''.'']
   \<and> unescapeDayoneMarkdown (unescapeDayoneMarkdown [backslash, backslash, CHR ''.''])
     \<noteq> unescapeDayoneMarkdown [backslash, backslash, CHR ''.'']"
  by (simp add: doubleBeforeMark_def unescapeDayoneMarkdown_def escapedMarks_def backslash_def)

subsection \<open>Rewriting of media references\<close>

text \<open>Some position of the text starts a match of the placeholder pattern.\<close>

fun containsMoment :: "(char \<Rightarrow> bool) \<Rightarrow> string \<Rightarrow> bool" where
  "containsMoment cls [] = False"
| "containsMoment cls (c # cs) = (matchMoment cls (c # cs) \<noteq> None \<or> containsMoment cls cs)"

lemma startsWith_append: "startsWith (p @ s) p"
  by (simp add: startsWith_def)

lemma startsWith_iff: "startsWith s p \<longleftrightarrow> (\<exists>r. s = p @ r)"
  unfolding startsWith_def
  by (metis append_eq_conv_conj append_take_drop_id)

lemma matchMoment_open:
  "matchMoment cls (momentOpen @ r) =
     (case dropWhile cls r of
        c # rest \<Rightarrow> if takeWhile cls r \<noteq> [] \<and> c = CHR '')'' then Some (takeWhile cls r, rest) else None
      | [] \<Rightarrow> None)"
  by (simp add: matchMoment_def startsWith_append Let_def)

lemma matchMoment_not_open: "\<not> startsWith s momentOpen \<Longrightarrow> matchMoment cls s = None"
  by (simp add: matchMoment_def)

lemma matchMoment_placeholder:
  assumes "run \<noteq> []" "\<forall>c\<in>set run. cls c" "\<not> cls (CHR '')'')"
  shows "matchMoment cls (momentOpen @ run @ CHR '')'' # post) = Some (run, post)"
proof -
  have "takeWhile cls (run @ CHR '')'' # post) = run" "dropWhile cls (run @ CHR '')'' # post) = CHR '')'' # post"
    using assms by (simp_all add: takeWhile_append2 dropWhile_append2)
  with assms(1) show ?thesis by (simp add: matchMoment_open)
qed

lemma matchMoment_SomeD:
  assumes "matchMoment cls s = Some (run, rest)"
  shows "s = momentOpen @ run @ CHR '')'' # rest \<and> run \<noteq> [] \<and> (\<forall>c\<in>set run. cls c)"
proof -
  from assms have sw: "startsWith s momentOpen"
    by (auto simp: matchMoment_def split: if_splits)
  then obtain r where s: "s = momentOpen @ r" by (auto simp: startsWith_iff)
  from assms have d: "dropWhile cls r = CHR '')'' # rest" and t: "takeWhile cls r = run" and n: "run \<noteq> []"
    unfolding s matchMoment_open by (auto split: list.splits if_splits)
  have "r = takeWhile cls r @ dropWhile cls r" by simp
  with d t have "r = run @ CHR '')'' # rest" by simp
  moreover have "\<forall>c\<in>set run. cls c" using t by (metis set_takeWhileD)
  ultimately show ?thesis using s n by simp
qed

lemma matchMoment_append:
  assumes "matchMoment cls s = Some (run, rest)" "\<not> cls (CHR '')'')"
  shows "matchMoment cls (s @ x) = Some (run, rest @ x)"
proof -
  from matchMoment_SomeD[OF assms(1)]
  have s: "s = momentOpen @ run @ CHR '')'' # rest" and n: "run \<noteq> []" and a: "\<forall>c\<in>set run. cls c"
    by auto
  have "s @ x = momentOpen @ run @ CHR '')'' # (rest @ x)" by (simp add: s)
  then show ?thesis using matchMoment_placeholder[OF n a assms(2)] by simp
qed

lemma bang_not_in_open: "CHR ''!'' \<notin> set (tl momentOpen)"
  by (simp add: momentOpen_def)

lemma open_across:
  assumes "pre \<noteq> []" "pre @ CHR ''!'' # y = momentOpen @ r"
  shows "\<exists>r0. pre = momentOpen @ r0"
proof (cases "length momentOpen \<le> length pre")
  case True
  with assms(2) show ?thesis
    by (metis append_eq_append_conv_if append_take_drop_id)
next
  case False
  then have l: "length pre < length momentOpen" by simp
  from assms(1) have p: "0 < length pre" by simp
  have "(pre @ CHR ''!'' # y) ! length pre = CHR ''!''" by simp
  with assms(2) have "(momentOpen @ r) ! length pre = CHR ''!''" by simp
  with l have "momentOpen ! length pre = CHR ''!''" by (simp add: nth_append)
  moreover from p l have "momentOpen ! length pre \<in> set (tl momentOpen)"
    by (metis List.nth_tl Suc_pred in_set_conv_nth length_tl less_diff_conv Suc_eq_plus1 Suc_less_eq Suc_pred')
  ultimately show ?thesis using bang_not_in_open by simp
qed

lemma matchMoment_None_append:
  assumes "matchMoment cls pre = None" "pre \<noteq> []" "\<not> cls (CHR ''!'')"
  shows "matchMoment cls (pre @ CHR ''!'' # y) = None"
proof (cases "startsWith (pre @ CHR ''!'' # y) momentOpen")
  case False then show ?thesis by (rule matchMoment_not_open)
next
  case True
  then obtain r where "pre @ CHR ''!'' # y = momentOpen @ r" by (auto simp: startsWith_iff)
  from open_across[OF assms(2) this] obtain r0 where pre: "pre = momentOpen @ r0" by auto
  show ?thesis
  proof (cases "\<forall>c\<in>set r0. cls c")
    case True
    then have "dropWhile cls (r0 @ CHR ''!'' # y) = CHR ''!'' # y"
      using assms(3) by (simp add: dropWhile_append2)
    then show ?thesis by (simp add: pre matchMoment_open)
  next
    case False
    then obtain c where c: "c \<in> set r0" "\<not> cls c" by auto
    then have 1: "takeWhile cls (r0 @ CHR ''!'' # y) = takeWhile cls r0"
      and 2: "dropWhile cls (r0 @ CHR ''!'' # y) = dropWhile cls r0 @ CHR ''!'' # y"
      by (simp_all add: takeWhile_append1 dropWhile_append1)
    from c have "dropWhile cls r0 \<noteq> []" by auto
    then obtain d ds where 3: "dropWhile cls r0 = d # ds" by (cases "dropWhile cls r0") auto
    from assms(1) show ?thesis
      by (simp add: pre matchMoment_open 1 2 3 split: if_splits)
  qed
qed

lemma replaceMoments_Some:
  assumes "matchMoment cls s = Some (run, rest)"
  shows "replaceMoments cls f s = f run @ replaceMoments cls f rest"
proof (cases s)
  case Nil
  with assms show ?thesis by (simp add: matchMoment_def startsWith_def momentOpen_def)
next
  case (Cons c cs)
  with assms show ?thesis by simp
qed

lemma replaceMoments_decompose:
  assumes "run \<noteq> []" "\<forall>c\<in>set run. cls c" "\<not> cls (CHR '')'')" "\<not> cls (CHR ''!'')"
  shows "replaceMoments cls f (pre @ momentOpen @ run @ CHR '')'' # post)
       = replaceMoments cls f pre @ f run @ replaceMoments cls f post"
  using assms
proof (induction cls f pre rule: replaceMoments.induct)
  case (1 cls f)
  then show ?case
    by (simp add: replaceMoments_Some[OF matchMoment_placeholder])
next
  case (2 cls f c cs)
  have o: "momentOpen @ run @ CHR '')'' # post = CHR ''!'' # tl momentOpen @ run @ CHR '')'' # post"
    by (simp add: momentOpen_def)
  show ?case
  proof (cases "matchMoment cls (c # cs)")
    case None
    let ?X = "momentOpen @ run @ CHR '')'' # post"
    from None have "matchMoment cls ((c # cs) @ CHR ''!'' # tl momentOpen @ run @ CHR '')'' # post) = None"
      using "2.prems" by (intro matchMoment_None_append) simp_all
    then have m: "matchMoment cls (c # (cs @ ?X)) = None"
      unfolding o by simp
    have step: "replaceMoments cls f ((c # cs) @ ?X) = c # replaceMoments cls f (cs @ ?X)"
      using m by simp
    have ih: "replaceMoments cls f (cs @ ?X)
        = replaceMoments cls f cs @ f run @ replaceMoments cls f post"
      using "2.IH"(1)[OF None] "2.prems" by blast
    have l: "replaceMoments cls f (c # cs) = c # replaceMoments cls f cs"
      using None by simp
    show ?thesis unfolding step ih l by simp
  next
    case (Some a)
    obtain run' rest' where a: "a = (run', rest')" by (cases a)
    from Some a "2.prems" have
      "matchMoment cls ((c # cs) @ momentOpen @ run @ CHR '')'' # post)
         = Some (run', rest' @ momentOpen @ run @ CHR '')'' # post)"
      by (intro matchMoment_append) simp_all
    then have "replaceMoments cls f ((c # cs) @ momentOpen @ run @ CHR '')'' # post)
        = f run' @ replaceMoments cls f (rest' @ momentOpen @ run @ CHR '')'' # post)"
      by (rule replaceMoments_Some)
    moreover have "replaceMoments cls f (rest' @ momentOpen @ run @ CHR '')'' # post)
        = replaceMoments cls f rest' @ f run @ replaceMoments cls f post"
      using "2.IH"(2)[OF Some a[symmetric]] "2.prems" by blast
    moreover have "replaceMoments cls f (c # cs) = f run' @ replaceMoments cls f rest'"
      using Some a by simp
    ultimately show ?thesis by simp
  qed
qed

lemma replaceMoments_unchanged:
  assumes "\<not> (\<exists>pre run post. run \<noteq> [] \<and> (\<forall>c\<in>set run. cls c)
             \<and> s = pre @ momentOpen @ run @ CHR '')'' # post)"
  shows "replaceMoments cls f s = s"
  using assms
proof (induction cls f s rule: replaceMoments.induct)
  case (1 cls f)
  then show ?case by simp
next
  case (2 cls f c cs)
  have n: "matchMoment cls (c # cs) = None"
  proof (cases "matchMoment cls (c # cs)")
    case (Some a)
    obtain run rest where "a = (run, rest)" by (cases a)
    with Some matchMoment_SomeD[of cls "c # cs" run rest]
    have "c # cs = [] @ momentOpen @ run @ CHR '')'' # rest \<and> run \<noteq> [] \<and> (\<forall>c\<in>set run. cls c)"
      by simp
    with "2.prems" show ?thesis by blast
  qed simp
  have nc: "\<not> (\<exists>pre run post. run \<noteq> [] \<and> (\<forall>c\<in>set run. cls c)
             \<and> cs = pre @ momentOpen @ run @ CHR '')'' # post)"
  proof
    assume "\<exists>pre run post. run \<noteq> [] \<and> (\<forall>c\<in>set run. cls c)
             \<and> cs = pre @ momentOpen @ run @ CHR '')'' # post"
    then obtain pre run post where "run \<noteq> []" "\<forall>c\<in>set run. cls c"
        "cs = pre @ momentOpen @ run @ CHR '')'' # post" by blast
    then have "run \<noteq> [] \<and> (\<forall>c\<in>set run. cls c) \<and> c # cs = (c # pre) @ momentOpen @ run @ CHR '')'' # post"
      by simp
    with "2.prems" show False by blast
  qed
  have "replaceMoments cls f cs = cs" by (rule "2.IH"(1)[OF n nc])
  with n show ?case by simp
qed

lemma containsMoment_intro:
  assumes "run \<noteq> []" "\<forall>c\<in>set run. cls c" "\<not> cls (CHR '')'')"
  shows "containsMoment cls (pre @ momentOpen @ run @ CHR '')'' # post)"
proof (induction pre)
  case Nil
  have "momentOpen @ run @ CHR '')'' # post = CHR ''!'' # tl momentOpen @ run @ CHR '')'' # post"
    by (simp add: momentOpen_def)
  moreover note matchMoment_placeholder[OF assms, of post]
  ultimately show ?case by (metis append_Nil containsMoment.simps(2) option.distinct(1))
next
  case (Cons c pre)
  then show ?case by simp
qed

lemma containsMoment_iff:
  assumes "\<not> cls (CHR '')'')"
  shows "containsMoment cls s \<longleftrightarrow>
     (\<exists>pre run post. run \<noteq> [] \<and> (\<forall>c\<in>set run. cls c) \<and> s = pre @ momentOpen @ run @ CHR '')'' # post)"
proof
  show "containsMoment cls s \<Longrightarrow>
     \<exists>pre run post. run \<noteq> [] \<and> (\<forall>c\<in>set run. cls c) \<and> s = pre @ momentOpen @ run @ CHR '')'' # post"
  proof (induction s)
    case Nil then show ?case by simp
  next
    case (Cons c cs)
    show ?case
    proof (cases "matchMoment cls (c # cs)")
      case (Some a)
      obtain run rest where "a = (run, rest)" by (cases a)
      with Some matchMoment_SomeD[of cls "c # cs" run rest]
      have "run \<noteq> [] \<and> (\<forall>c\<in>set run. cls c) \<and> c # cs = [] @ momentOpen @ run @ CHR '')'' # rest"
        by simp
      then show ?thesis by blast
    next
      case None
      with Cons.prems have "containsMoment cls cs" by simp
      with Cons.IH obtain pre run post where "run \<noteq> []" "\<forall>c\<in>set run. cls c"
        "cs = pre @ momentOpen @ run @ CHR '')'' # post" by blast
      then have "run \<noteq> [] \<and> (\<forall>c\<in>set run. cls c) \<and> c # cs = (c # pre) @ momentOpen @ run @ CHR '')'' # post"
        by simp
      then show ?thesis by blast
    qed
  qed
next
  assume "\<exists>pre run post. run \<noteq> [] \<and> (\<forall>c\<in>set run. cls c) \<and> s = pre @ momentOpen @ run @ CHR '')'' # post"
  then show "containsMoment cls s" using containsMoment_intro assms by blast
qed

text \<open>
  Claim C2. A placeholder is the opening \<open>![](dayone-moment://\<close>, an identifier and a
  closing parenthesis. Every placeholder whose identifier is a non-empty run of
  upper-case hexadecimal digits is replaced, wherever it stands: the text before it and
  the text after it are converted on their own, and the placeholder becomes the embedded
  link to fingerprint and kind when the identifier is registered (the fingerprint as a
  template literal prints it, see \<open>printed\<close>), the comment naming the identifier when
  it is not. A text that holds no such placeholder is left as it is,
  which covers identifiers outside upper-case hexadecimal. The two examples of the spec
  are the last two conjuncts.
\<close>

theorem convertImageReferences_replaces_placeholders:
  "(ID \<noteq> [] \<and> list_all isUpperHex ID \<longrightarrow>
      convertImageReferences this (pre @ momentOpen @ ID @ CHR '')'' # post)
        = convertImageReferences this pre
          @ (case photoMap this (Some ID) of
               Some m \<Rightarrow> ''![['' @ printed (md5 m) @ ''.'' @ type m @ '']]''
             | None \<Rightarrow> ''<!-- Missing media: '' @ ID @ '' -->'')
          @ convertImageReferences this post)
   \<and> ((\<nexists>pre ID post. ID \<noteq> [] \<and> list_all isUpperHex ID
            \<and> s = pre @ momentOpen @ ID @ CHR '')'' # post) \<longrightarrow>
        convertImageReferences this s = s)
   \<and> (photoMap this (Some ''ABC123'') = None \<longrightarrow>
        convertImageReferences this ''![](dayone-moment://ABC123)''
          = ''<!-- Missing media: ABC123 -->'')
   \<and> (photoMap this (Some ''ABC123'') = Some (Media (Str ''f00d'') ''jpeg'') \<longrightarrow>
        convertImageReferences this ''![](dayone-moment://ABC123)'' = ''![[f00d.jpeg]]'')"
proof (intro conjI impI)
  have h: "\<not> isUpperHex (CHR '')'')" "\<not> isUpperHex (CHR ''!'')"
    by (simp_all add: isUpperHex_def)
  show "convertImageReferences this (pre @ momentOpen @ ID @ CHR '')'' # post)
        = convertImageReferences this pre
          @ (case photoMap this (Some ID) of
               Some m \<Rightarrow> ''![['' @ printed (md5 m) @ ''.'' @ type m @ '']]''
             | None \<Rightarrow> ''<!-- Missing media: '' @ ID @ '' -->'')
          @ convertImageReferences this post"
    if "ID \<noteq> [] \<and> list_all isUpperHex ID"
    unfolding convertImageReferences_def
    using that h by (intro replaceMoments_decompose) (simp_all add: list_all_iff)
  show "convertImageReferences this s = s"
    if "\<nexists>pre ID post. ID \<noteq> [] \<and> list_all isUpperHex ID
            \<and> s = pre @ momentOpen @ ID @ CHR '')'' # post"
    unfolding convertImageReferences_def
    using that by (intro replaceMoments_unchanged) (simp add: list_all_iff)
  show "convertImageReferences this ''![](dayone-moment://ABC123)''
          = ''<!-- Missing media: ABC123 -->''"
    if "photoMap this (Some ''ABC123'') = None"
    using that
    by (simp add: convertImageReferences_def matchMoment_def startsWith_def momentOpen_def
        isUpperHex_def Let_def)
  show "convertImageReferences this ''![](dayone-moment://ABC123)'' = ''![[f00d.jpeg]]''"
    if "photoMap this (Some ''ABC123'') = Some (Media (Str ''f00d'') ''jpeg'')"
    using that
    by (simp add: convertImageReferences_def matchMoment_def startsWith_def momentOpen_def
        isUpperHex_def Let_def printed_def)
qed

text \<open>A converter whose index holds the one attachment of the spec's example.\<close>

definition exampleIndex :: converter where
  "exampleIndex = (newConverter False)\<lparr> photoMap := [Some ''ABC123'' \<mapsto> Media (Str ''f00d'') ''jpeg''] \<rparr>"

theorem convertImageReferences_witness:
  "''AB12'' \<noteq> [] \<and> list_all isUpperHex ''AB12''
   \<and> convertImageReferences exampleIndex
         (''x ![](dayone-moment://ABC123) '' @ momentOpen @ ''AB12'' @ CHR '')'' # '' y'')
       = ''x ![[f00d.jpeg]] <!-- Missing media: AB12 --> y''
   \<and> convertImageReferences exampleIndex ''see ![](dayone-moment://abc) and ![](dayone-moment://)''
       = ''see ![](dayone-moment://abc) and ![](dayone-moment://)''
   \<and> photoMap (newConverter False) (Some ''ABC123'') = None
   \<and> convertImageReferences (newConverter False) ''![](dayone-moment://ABC123)''
       = ''<!-- Missing media: ABC123 -->''
   \<and> photoMap exampleIndex (Some ''ABC123'') = Some (Media (Str ''f00d'') ''jpeg'')
   \<and> convertImageReferences exampleIndex ''![](dayone-moment://ABC123)'' = ''![[f00d.jpeg]]''"
proof -
  note ev = convertImageReferences_def matchMoment_def startsWith_def momentOpen_def
    isUpperHex_def Let_def printed_def
  have a: "''AB12'' \<noteq> [] \<and> list_all isUpperHex ''AB12''"
    by (simp add: isUpperHex_def)
  have b: "\<nexists>pre ID post. ID \<noteq> [] \<and> list_all isUpperHex ID
       \<and> ''see ![](dayone-moment://abc) and ![](dayone-moment://)'' = pre @ momentOpen @ ID @ CHR '')'' # post"
  proof -
    have nc: "\<not> containsMoment isUpperHex ''see ![](dayone-moment://abc) and ![](dayone-moment://)''"
      by (simp add: ev)
    have h: "\<not> isUpperHex (CHR '')'')"
      by (simp add: isUpperHex_def)
    show ?thesis
      unfolding list_all_iff using nc h
        containsMoment_iff[of isUpperHex "''see ![](dayone-moment://abc) and ![](dayone-moment://)''"]
      by blast
  qed
  have c: "photoMap (newConverter False) (Some ''ABC123'') = None"
    by (simp add: newConverter_def)
  have d: "photoMap exampleIndex (Some ''ABC123'') = Some (Media (Str ''f00d'') ''jpeg'')"
    by (simp add: exampleIndex_def)
  have e: "convertImageReferences exampleIndex ''x ![](dayone-moment://ABC123) '' = ''x ![[f00d.jpeg]] ''"
    "convertImageReferences exampleIndex '' y'' = '' y''"
    "photoMap exampleIndex (Some ''AB12'') = None"
    by (simp_all add: ev exampleIndex_def)
  from convertImageReferences_replaces_placeholders
      [of "''AB12''" exampleIndex "''x ![](dayone-moment://ABC123) ''" "'' y''"
          "''see ![](dayone-moment://abc) and ![](dayone-moment://)''"]
    convertImageReferences_replaces_placeholders [of "[]" "newConverter False" "[]" "[]" "[]"]
    a b c d e
  show ?thesis by simp
qed

text \<open>
  The fingerprint is printed as a template literal prints it: a registered attachment
  whose \<open>md5\<close> is \<open>null\<close> or missing gives a link to \<open>null\<close> or
  \<open>undefined\<close> with the kind.
\<close>

definition unprintedIndex :: converter where
  "unprintedIndex = (newConverter False)\<lparr> photoMap :=
     [Some ''0F'' \<mapsto> Media Null ''jpeg'', Some ''1F'' \<mapsto> Media Undefined ''mov''] \<rparr>"

lemma convertImageReferences_prints_missing_fingerprint:
  "convertImageReferences unprintedIndex ''![](dayone-moment://0F) ![](dayone-moment://1F)''
     = ''![[null.jpeg]] ![[undefined.mov]]''"
  by (simp add: convertImageReferences_def matchMoment_def startsWith_def momentOpen_def
      isUpperHex_def Let_def printed_def unprintedIndex_def)

subsection \<open>Skipping a duplicate\<close>

lemma shouldSkipDuplicate_iff:
  "shouldSkipDuplicate this e \<longleftrightarrow>
     (\<not> allowDuplicates this \<and> truthyStr (uuid e)
      \<and> seenEntries this (the (uuid e)) = Some (hashString (orElse (entryText e) [])))"
  by (auto simp: shouldSkipDuplicate_def Let_def split: option.splits)

text \<open>
  Claim C8. An entry is skipped exactly when deduplication is on, the entry has an
  identifier and the fingerprint recorded for it is the fingerprint of the entry's text.
  The step of the loop then gives back the run with \<open>skippedDuplicates\<close> one higher
  and nothing else changed: the output archive, the count of converted entries, the used
  filenames, the media index and the recorded fingerprints are as before.
  \<open>convertEntry\<close> is not called, so no frontmatter and no filename is made.
\<close>

theorem skipped_duplicate_changes_only_the_counter:
  "(shouldSkipDuplicate (conv r) e \<longleftrightarrow>
      (\<not> allowDuplicates (conv r) \<and> truthyStr (uuid e)
       \<and> seenEntries (conv r) (the (uuid e)) = Some (hashString (orElse (entryText e) []))))
   \<and> (shouldSkipDuplicate (conv r) e \<longrightarrow>
        convertStep dump r e
          = Inr (r\<lparr> conv := (conv r)\<lparr> skippedDuplicates := skippedDuplicates (conv r) + 1 \<rparr> \<rparr>))
   \<and> (shouldSkipDuplicate (conv r) e \<longrightarrow>
        (\<exists>r1. convertStep dump r e = Inr r1
           \<and> skippedDuplicates (conv r1) = skippedDuplicates (conv r) + 1
           \<and> outputZip r1 = outputZip r \<and> converted r1 = converted r
           \<and> usedFilenames (conv r1) = usedFilenames (conv r)
           \<and> photoMap (conv r1) = photoMap (conv r)
           \<and> seenEntries (conv r1) = seenEntries (conv r)
           \<and> allowDuplicates (conv r1) = allowDuplicates (conv r)))"
  by (simp add: shouldSkipDuplicate_iff convertStep_def)

text \<open>A run that has converted the entry \<open>hello\<close> once, and that entry again.\<close>

definition seenOnce :: run where
  "seenOnce = \<lparr> conv = (newConverter False)\<lparr> seenEntries := [''U1'' \<mapsto> hashString ''hello''],
       usedFilenames := {''2024-01-15 hello.md''} \<rparr>,
     outputZip = [(''entries/2024-01-15 hello.md'', ''hello'')], converted = 1 \<rparr>"

definition helloEntry :: entry where
  "helloEntry = \<lparr> uuid = Some ''U1'', entryText = Some ''hello'', creationDate = UTCDate 2024 1 15,
     photos = None, videos = None, audios = None, pdfAttachments = None, weather = None \<rparr>"

theorem skipped_duplicate_witness:
  "shouldSkipDuplicate (conv seenOnce) helloEntry
   \<and> convertStep (\<lambda>e. []) seenOnce helloEntry
       = Inr (seenOnce\<lparr> conv := (conv seenOnce)\<lparr> skippedDuplicates := 1 \<rparr> \<rparr>)"
proof -
  have a: "shouldSkipDuplicate (conv seenOnce) helloEntry"
    by (simp add: shouldSkipDuplicate_iff seenOnce_def helloEntry_def newConverter_def
        truthyStr_def orElse_def)
  have b: "skippedDuplicates (conv seenOnce) = 0"
    by (simp add: seenOnce_def newConverter_def)
  from a b skipped_duplicate_changes_only_the_counter [of seenOnce helloEntry "\<lambda>e. []"]
  show ?thesis by simp
qed

subsection \<open>The weather block\<close>

lemma weatherKeys_empty:
  "weatherKeys f = [] \<longleftrightarrow>
     (conditions f = None \<and> temperature_c f = None \<and> humidity f = None \<and> pressure_mb f = None
      \<and> wind_speed_kph f = None \<and> wind_bearing f = None \<and> visibility_km f = None
      \<and> moon_phase f = None)"
  by (simp add: weatherKeys_def)

lemma keepPositive_eq:
  "keepPositive x = (case x of None \<Rightarrow> None | Some h \<Rightarrow> if h > 0 then Some h else None)"
  by (auto simp: keepPositive_def truthyNum_def split: option.splits)

lemma MOON_PHASES_labels: "map_of MOON_PHASES c = Some l \<Longrightarrow> l \<noteq> []"
  by (auto simp: MOON_PHASES_def split: if_splits)

lemma getProperty_truthy:
  "getProperty MOON_PHASES c = Some v \<Longrightarrow> truthyProperty (Some v)"
  by (auto simp: getProperty_def truthyProperty_def split: option.splits if_splits
      dest: MOON_PHASES_labels)

lemma getProperty_empty: "getProperty MOON_PHASES [] = None"
  by (simp add: getProperty_def MOON_PHASES_def objectPrototype_def)

lemma moon_phase_eq:
  "moon_phase (buildWeather w)
     = (case moonPhaseCode w of None \<Rightarrow> None | Some c \<Rightarrow> getProperty MOON_PHASES c)"
proof (cases "moonPhaseCode w")
  case None
  then show ?thesis by (simp add: buildWeather_def truthyStr_def)
next
  case (Some c)
  show ?thesis
  proof (cases "getProperty MOON_PHASES c")
    case None
    with Some show ?thesis by (simp add: buildWeather_def truthyProperty_def)
  next
    case (Some v)
    with \<open>moonPhaseCode w = Some c\<close> getProperty_truthy[OF Some] getProperty_empty
    show ?thesis by (auto simp: buildWeather_def truthyStr_def)
  qed
qed

text \<open>
  What holds of the weather block for every entry. The weather key is set exactly when
  the entry has a weather record and one of the eight derived fields is set, and its
  value is the record of the derived fields. Humidity and visibility are set only from a
  strictly positive source value, which they copy; a humidity of zero sets none. The
  moon phase is the label of the table for one of its eight codes, nothing for a code
  that is neither in the table nor the name of an inherited member, and the inherited
  member for such a name.
\<close>

lemma weather_block_of_frontmatter:
  "(frontmatterWeather e = Some f \<longrightarrow>
      \<not> (conditions f = None \<and> temperature_c f = None \<and> humidity f = None
         \<and> pressure_mb f = None \<and> wind_speed_kph f = None \<and> wind_bearing f = None
         \<and> visibility_km f = None \<and> moon_phase f = None))
   \<and> (frontmatterWeather e = Some f \<longrightarrow> (\<exists>w. weather e = Some w \<and> f = buildWeather w))
   \<and> (weather e = Some w \<longrightarrow>
        (frontmatterWeather e = None \<longleftrightarrow>
           (keepStr (conditionsDescription w) = None \<and> keepNum (temperatureCelsius w) = None
            \<and> keepPositive (relativeHumidity w) = None \<and> keepNum (pressureMB w) = None
            \<and> keepNum (windSpeedKPH w) = None \<and> keepNum (windBearing w) = None
            \<and> keepPositive (visibilityKM w) = None
            \<and> (case moonPhaseCode w of None \<Rightarrow> None | Some c \<Rightarrow> getProperty MOON_PHASES c) = None)))
   \<and> (weather e = None \<longrightarrow> frontmatterWeather e = None)
   \<and> humidity (buildWeather w)
        = (case relativeHumidity w of None \<Rightarrow> None | Some h \<Rightarrow> if h > 0 then Some h else None)
   \<and> visibility_km (buildWeather w)
        = (case visibilityKM w of None \<Rightarrow> None | Some v \<Rightarrow> if v > 0 then Some v else None)
   \<and> (relativeHumidity w = Some 0 \<longrightarrow> humidity (buildWeather w) = None)
   \<and> (moonPhaseCode w = Some c \<and> map_of MOON_PHASES c = Some l \<longrightarrow>
        moon_phase (buildWeather w) = Some (Label l))
   \<and> (moonPhaseCode w = Some c \<and> map_of MOON_PHASES c = None \<and> c \<notin> set objectPrototype \<longrightarrow>
        moon_phase (buildWeather w) = None)
   \<and> (moonPhaseCode w = Some c \<and> map_of MOON_PHASES c = None \<and> c \<in> set objectPrototype \<longrightarrow>
        moon_phase (buildWeather w) = Some (Inherited c))"
proof (intro conjI impI)
  show "\<not> (conditions f = None \<and> temperature_c f = None \<and> humidity f = None
         \<and> pressure_mb f = None \<and> wind_speed_kph f = None \<and> wind_bearing f = None
         \<and> visibility_km f = None \<and> moon_phase f = None)"
    if "frontmatterWeather e = Some f"
    using that weatherKeys_empty[of f]
    by (auto simp: frontmatterWeather_def split: option.splits if_splits)
  show "\<exists>w. weather e = Some w \<and> f = buildWeather w" if "frontmatterWeather e = Some f"
    using that by (auto simp: frontmatterWeather_def split: option.splits if_splits)
  show "frontmatterWeather e = None \<longleftrightarrow>
           (keepStr (conditionsDescription w) = None \<and> keepNum (temperatureCelsius w) = None
            \<and> keepPositive (relativeHumidity w) = None \<and> keepNum (pressureMB w) = None
            \<and> keepNum (windSpeedKPH w) = None \<and> keepNum (windBearing w) = None
            \<and> keepPositive (visibilityKM w) = None
            \<and> (case moonPhaseCode w of None \<Rightarrow> None | Some c \<Rightarrow> getProperty MOON_PHASES c) = None)"
    if "weather e = Some w"
  proof -
    have "frontmatterWeather e = None \<longleftrightarrow> weatherKeys (buildWeather w) = []"
      using that by (simp add: frontmatterWeather_def)
    also have "\<dots> \<longleftrightarrow> (conditions (buildWeather w) = None \<and> temperature_c (buildWeather w) = None
            \<and> humidity (buildWeather w) = None \<and> pressure_mb (buildWeather w) = None
            \<and> wind_speed_kph (buildWeather w) = None \<and> wind_bearing (buildWeather w) = None
            \<and> visibility_km (buildWeather w) = None
            \<and> moon_phase (buildWeather w) = None)"
      by (rule weatherKeys_empty)
    also have "\<dots> \<longleftrightarrow> (keepStr (conditionsDescription w) = None \<and> keepNum (temperatureCelsius w) = None
            \<and> keepPositive (relativeHumidity w) = None \<and> keepNum (pressureMB w) = None
            \<and> keepNum (windSpeedKPH w) = None \<and> keepNum (windBearing w) = None
            \<and> keepPositive (visibilityKM w) = None
            \<and> (case moonPhaseCode w of None \<Rightarrow> None | Some c \<Rightarrow> getProperty MOON_PHASES c) = None)"
      unfolding moon_phase_eq by (simp add: buildWeather_def)
    finally show ?thesis .
  qed
  show "frontmatterWeather e = None" if "weather e = None"
    using that by (simp add: frontmatterWeather_def)
  show "humidity (buildWeather w)
        = (case relativeHumidity w of None \<Rightarrow> None | Some h \<Rightarrow> if h > 0 then Some h else None)"
    by (simp add: buildWeather_def keepPositive_eq)
  show "visibility_km (buildWeather w)
        = (case visibilityKM w of None \<Rightarrow> None | Some v \<Rightarrow> if v > 0 then Some v else None)"
    by (simp add: buildWeather_def keepPositive_eq)
  show "humidity (buildWeather w) = None" if "relativeHumidity w = Some 0"
    using that by (simp add: buildWeather_def keepPositive_eq)
  show "moon_phase (buildWeather w) = Some (Label l)"
    if "moonPhaseCode w = Some c \<and> map_of MOON_PHASES c = Some l"
    using that by (simp add: moon_phase_eq getProperty_def)
  show "moon_phase (buildWeather w) = None"
    if "moonPhaseCode w = Some c \<and> map_of MOON_PHASES c = None \<and> c \<notin> set objectPrototype"
    using that by (simp add: moon_phase_eq getProperty_def)
  show "moon_phase (buildWeather w) = Some (Inherited c)"
    if "moonPhaseCode w = Some c \<and> map_of MOON_PHASES c = None \<and> c \<in> set objectPrototype"
    using that by (simp add: moon_phase_eq getProperty_def)
qed

text \<open>
  An entry whose weather record holds nothing but a moon-phase code, and one with a
  humidity of zero beside a temperature.
\<close>

definition moonOnly :: "string \<Rightarrow> weatherData" where
  "moonOnly c = \<lparr> conditionsDescription = None, temperatureCelsius = None,
     relativeHumidity = None, pressureMB = None, windSpeedKPH = None, windBearing = None,
     visibilityKM = None, moonPhaseCode = Some c \<rparr>"

definition zeroHumidity :: weatherData where
  "zeroHumidity = \<lparr> conditionsDescription = None, temperatureCelsius = Some 21,
     relativeHumidity = Some 0, pressureMB = None, windSpeedKPH = None, windBearing = None,
     visibilityKM = Some 12, moonPhaseCode = None \<rparr>"

definition entryWith :: "weatherData option \<Rightarrow> entry" where
  "entryWith w = \<lparr> uuid = Some ''U1'', entryText = Some ''hello'', creationDate = UTCDate 2024 1 15,
     photos = None, videos = None, audios = None, pdfAttachments = None, weather = w \<rparr>"

lemmas weather_defs = frontmatterWeather_def weatherKeys_def buildWeather_def keepStr_def
  keepNum_def keepPositive_def truthyStr_def truthyNum_def truthyProperty_def getProperty_def
  MOON_PHASES_def objectPrototype_def entryWith_def moonOnly_def zeroHumidity_def

text \<open>
  Claim C9 against the code. The moon-phase code \<open>constructor\<close> is none of the eight
  codes of the table, yet \<open>MOON_PHASES['constructor']\<close> is the function every object
  inherits, which is truthy: the block sets \<open>moon_phase\<close> to it, and the weather
  record, which holds nothing else, is emitted with that one key. A code such as
  \<open>blue\<close>, which no object inherits, is omitted and so is the weather record; the code
  \<open>full\<close> gives its label; a humidity of zero is left out beside the temperature and
  the visibility.
\<close>

theorem inherited_moon_code_is_not_omitted:
  "map_of MOON_PHASES ''constructor'' = None
   \<and> moon_phase (buildWeather (moonOnly ''constructor'')) = Some (Inherited ''constructor'')
   \<and> weatherKeys (buildWeather (moonOnly ''constructor'')) = [''moon_phase'']
   \<and> frontmatterWeather (entryWith (Some (moonOnly ''constructor'')))
       = Some (buildWeather (moonOnly ''constructor''))
   \<and> map_of MOON_PHASES ''blue'' = None
   \<and> frontmatterWeather (entryWith (Some (moonOnly ''blue''))) = None
   \<and> moon_phase (buildWeather (moonOnly ''full'')) = Some (Label ''Full Moon'')
   \<and> weatherKeys (buildWeather zeroHumidity) = [''temperature_c'', ''visibility_km'']"
  by (simp add: weather_defs)

subsection \<open>The media index\<close>

text \<open>The attachments of a list that may be missing, and the identifiers they carry.\<close>

definition listed :: "attachment list option \<Rightarrow> attachment list" where
  "listed xs = (case xs of None \<Rightarrow> [] | Some l \<Rightarrow> l)"

definition identifiers :: "attachment list option \<Rightarrow> string option set" where
  "identifiers xs = a_identifier ` set (listed xs)"

lemma foldl_register_other:
  "k \<notin> a_identifier ` set l \<Longrightarrow> foldl (\<lambda>m a. m(a_identifier a \<mapsto> f a)) pm l k = pm k"
  by (induction l arbitrary: pm) auto

lemma registerAll_other:
  "k \<notin> identifiers xs \<Longrightarrow> registerAll f xs pm k = pm k"
  by (cases xs) (simp_all add: registerAll_def identifiers_def listed_def foldl_register_other)

lemma registerAll_last:
  assumes "xs = Some (l1 @ a # l2)" "a_identifier a \<notin> a_identifier ` set l2"
  shows "registerAll f xs pm (a_identifier a) = Some (f a)"
  using assms by (simp add: registerAll_def foldl_register_other)

lemma orElse_cases:
  "orElse x d = (case x of None \<Rightarrow> d | Some t \<Rightarrow> if t = [] then d else t)"
  by (simp add: orElse_def truthyStr_def split: option.splits)

text \<open>
  Claim C5, as the code has it. After \<open>buildPhotoMap\<close> an attachment's identifier
  is mapped to the attachment's fingerprint and kind, provided no attachment registered
  after it (later in its list, or in a list read later: photos, videos, audios, then
  \<open>pdfAttachments\<close>) carries the same identifier, since the last write wins. The kind
  of a photo, video or audio is its own \<open>type\<close> when that is a non-empty string and
  the default \<open>jpeg\<close>, \<open>mov\<close>, \<open>m4a\<close> otherwise. The kind of a PDF attachment is
  always \<open>pdf\<close>, whatever \<open>type\<close> it carries. Identifiers of no attachment of the
  entry keep what the index held.
\<close>

theorem buildPhotoMap_registers_attachments:
  "(photos e = Some (l1 @ a # l2)
      \<and> a_identifier a \<notin> a_identifier ` set l2 \<union> identifiers (videos e) \<union> identifiers (audios e)
            \<union> identifiers (pdfAttachments e) \<longrightarrow>
      photoMap (buildPhotoMap this e) (a_identifier a)
        = Some (Media (a_md5 a) (case a_type a of None \<Rightarrow> ''jpeg'' | Some t \<Rightarrow> if t = [] then ''jpeg'' else t)))
   \<and> (videos e = Some (l1 @ a # l2)
      \<and> a_identifier a \<notin> a_identifier ` set l2 \<union> identifiers (audios e)
            \<union> identifiers (pdfAttachments e) \<longrightarrow>
      photoMap (buildPhotoMap this e) (a_identifier a)
        = Some (Media (a_md5 a) (case a_type a of None \<Rightarrow> ''mov'' | Some t \<Rightarrow> if t = [] then ''mov'' else t)))
   \<and> (audios e = Some (l1 @ a # l2)
      \<and> a_identifier a \<notin> a_identifier ` set l2 \<union> identifiers (pdfAttachments e) \<longrightarrow>
      photoMap (buildPhotoMap this e) (a_identifier a)
        = Some (Media (a_md5 a) (case a_type a of None \<Rightarrow> ''m4a'' | Some t \<Rightarrow> if t = [] then ''m4a'' else t)))
   \<and> (pdfAttachments e = Some (l1 @ a # l2) \<and> a_identifier a \<notin> a_identifier ` set l2 \<longrightarrow>
      photoMap (buildPhotoMap this e) (a_identifier a) = Some (Media (a_md5 a) ''pdf''))
   \<and> (k \<notin> identifiers (photos e) \<union> identifiers (videos e) \<union> identifiers (audios e)
            \<union> identifiers (pdfAttachments e) \<longrightarrow>
      photoMap (buildPhotoMap this e) k = photoMap this k)"
proof (intro conjI impI)
  show "photoMap (buildPhotoMap this e) (a_identifier a)
        = Some (Media (a_md5 a) (case a_type a of None \<Rightarrow> ''jpeg'' | Some t \<Rightarrow> if t = [] then ''jpeg'' else t))"
    if "photos e = Some (l1 @ a # l2)
      \<and> a_identifier a \<notin> a_identifier ` set l2 \<union> identifiers (videos e) \<union> identifiers (audios e)
            \<union> identifiers (pdfAttachments e)"
    using that by (simp add: buildPhotoMap_def registerAll_other registerAll_last orElse_cases)
  show "photoMap (buildPhotoMap this e) (a_identifier a)
        = Some (Media (a_md5 a) (case a_type a of None \<Rightarrow> ''mov'' | Some t \<Rightarrow> if t = [] then ''mov'' else t))"
    if "videos e = Some (l1 @ a # l2)
      \<and> a_identifier a \<notin> a_identifier ` set l2 \<union> identifiers (audios e)
            \<union> identifiers (pdfAttachments e)"
    using that by (simp add: buildPhotoMap_def registerAll_other registerAll_last orElse_cases)
  show "photoMap (buildPhotoMap this e) (a_identifier a)
        = Some (Media (a_md5 a) (case a_type a of None \<Rightarrow> ''m4a'' | Some t \<Rightarrow> if t = [] then ''m4a'' else t))"
    if "audios e = Some (l1 @ a # l2)
      \<and> a_identifier a \<notin> a_identifier ` set l2 \<union> identifiers (pdfAttachments e)"
    using that by (simp add: buildPhotoMap_def registerAll_other registerAll_last orElse_cases)
  show "photoMap (buildPhotoMap this e) (a_identifier a) = Some (Media (a_md5 a) ''pdf'')"
    if "pdfAttachments e = Some (l1 @ a # l2) \<and> a_identifier a \<notin> a_identifier ` set l2"
    using that by (simp add: buildPhotoMap_def registerAll_last)
  show "photoMap (buildPhotoMap this e) k = photoMap this k"
    if "k \<notin> identifiers (photos e) \<union> identifiers (videos e) \<union> identifiers (audios e)
            \<union> identifiers (pdfAttachments e)"
    using that by (simp add: buildPhotoMap_def registerAll_other)
qed

text \<open>
  An entry with attachments in all four lists; its PDF attachment carries the explicit
  kind \<open>png\<close>.
\<close>

definition att :: "string \<Rightarrow> string \<Rightarrow> string option \<Rightarrow> attachment" where
  "att i m t = \<lparr> a_identifier = Some i, a_md5 = Str m, a_type = t \<rparr>"

definition mediaEntry :: entry where
  "mediaEntry = \<lparr> uuid = Some ''U1'', entryText = Some ''hello'', creationDate = UTCDate 2024 1 15,
     photos = Some [att ''A1'' ''aa'' (Some ''png''), att ''A2'' ''bb'' None],
     videos = Some [att ''B1'' ''cc'' (Some ''mp4'')],
     audios = Some [att ''C1'' ''dd'' None],
     pdfAttachments = Some [att ''D1'' ''ee'' (Some ''png'')],
     weather = None \<rparr>"

text \<open>
  The claim as the spec states it (an explicit kind overrides the default for every
  category, PDF included) fails on that entry: the PDF attachment is registered with the
  kind \<open>pdf\<close>, not with its own \<open>png\<close>.
\<close>

theorem buildPhotoMap_pdf_kind_is_fixed:
  "photoMap (buildPhotoMap (newConverter False) mediaEntry) (Some ''D1'')
     = Some (Media (Str ''ee'') ''pdf'')
   \<and> photoMap (buildPhotoMap (newConverter False) mediaEntry) (Some ''D1'')
     \<noteq> Some (Media (Str ''ee'') ''png'')"
  by (simp add: buildPhotoMap_def registerAll_def mediaEntry_def att_def newConverter_def orElse_def truthyStr_def)

theorem buildPhotoMap_witness:
  "photoMap (buildPhotoMap (newConverter False) mediaEntry) (Some ''A1'') = Some (Media (Str ''aa'') ''png'')
   \<and> photoMap (buildPhotoMap (newConverter False) mediaEntry) (Some ''A2'') = Some (Media (Str ''bb'') ''jpeg'')
   \<and> photoMap (buildPhotoMap (newConverter False) mediaEntry) (Some ''B1'') = Some (Media (Str ''cc'') ''mp4'')
   \<and> photoMap (buildPhotoMap (newConverter False) mediaEntry) (Some ''C1'') = Some (Media (Str ''dd'') ''m4a'')
   \<and> photoMap (buildPhotoMap (newConverter False) mediaEntry) (Some ''D1'') = Some (Media (Str ''ee'') ''pdf'')
   \<and> photoMap (buildPhotoMap (newConverter False) mediaEntry) (Some ''Z9'') = None"
proof -
  note ids = identifiers_def listed_def mediaEntry_def att_def
  have p1: "photos mediaEntry = Some ([] @ att ''A1'' ''aa'' (Some ''png'') # [att ''A2'' ''bb'' None])
      \<and> a_identifier (att ''A1'' ''aa'' (Some ''png'')) \<notin> a_identifier ` set [att ''A2'' ''bb'' None]
            \<union> identifiers (videos mediaEntry) \<union> identifiers (audios mediaEntry)
            \<union> identifiers (pdfAttachments mediaEntry)"
    by (simp add: ids)
  have p2: "photos mediaEntry = Some ([att ''A1'' ''aa'' (Some ''png'')] @ att ''A2'' ''bb'' None # [])
      \<and> a_identifier (att ''A2'' ''bb'' None) \<notin> a_identifier ` set []
            \<union> identifiers (videos mediaEntry) \<union> identifiers (audios mediaEntry)
            \<union> identifiers (pdfAttachments mediaEntry)"
    by (simp add: ids)
  have v: "videos mediaEntry = Some ([] @ att ''B1'' ''cc'' (Some ''mp4'') # [])
      \<and> a_identifier (att ''B1'' ''cc'' (Some ''mp4'')) \<notin> a_identifier ` set []
            \<union> identifiers (audios mediaEntry) \<union> identifiers (pdfAttachments mediaEntry)"
    by (simp add: ids)
  have au: "audios mediaEntry = Some ([] @ att ''C1'' ''dd'' None # [])
      \<and> a_identifier (att ''C1'' ''dd'' None) \<notin> a_identifier ` set []
            \<union> identifiers (pdfAttachments mediaEntry)"
    by (simp add: ids)
  have pd: "pdfAttachments mediaEntry = Some ([] @ att ''D1'' ''ee'' (Some ''png'') # [])
      \<and> a_identifier (att ''D1'' ''ee'' (Some ''png'')) \<notin> a_identifier ` set []"
    by (simp add: ids)
  have z: "Some ''Z9'' \<notin> identifiers (photos mediaEntry) \<union> identifiers (videos mediaEntry)
      \<union> identifiers (audios mediaEntry) \<union> identifiers (pdfAttachments mediaEntry)"
    by (simp add: ids)
  note t = buildPhotoMap_registers_attachments
  have "photoMap (buildPhotoMap (newConverter False) mediaEntry) (a_identifier (att ''A1'' ''aa'' (Some ''png'')))
      = Some (Media (a_md5 (att ''A1'' ''aa'' (Some ''png'')))
          (case a_type (att ''A1'' ''aa'' (Some ''png'')) of None \<Rightarrow> ''jpeg'' | Some t \<Rightarrow> if t = [] then ''jpeg'' else t))"
    using t[of mediaEntry "[]" "att ''A1'' ''aa'' (Some ''png'')" "[att ''A2'' ''bb'' None]" "newConverter False"] p1 by blast
  then have r1: "photoMap (buildPhotoMap (newConverter False) mediaEntry) (Some ''A1'') = Some (Media (Str ''aa'') ''png'')"
    by (simp add: att_def)
  have "photoMap (buildPhotoMap (newConverter False) mediaEntry) (a_identifier (att ''A2'' ''bb'' None))
      = Some (Media (a_md5 (att ''A2'' ''bb'' None))
          (case a_type (att ''A2'' ''bb'' None) of None \<Rightarrow> ''jpeg'' | Some t \<Rightarrow> if t = [] then ''jpeg'' else t))"
    using t[of mediaEntry "[att ''A1'' ''aa'' (Some ''png'')]" "att ''A2'' ''bb'' None" "[]" "newConverter False"] p2 by blast
  then have r2: "photoMap (buildPhotoMap (newConverter False) mediaEntry) (Some ''A2'') = Some (Media (Str ''bb'') ''jpeg'')"
    by (simp add: att_def)
  have "photoMap (buildPhotoMap (newConverter False) mediaEntry) (a_identifier (att ''B1'' ''cc'' (Some ''mp4'')))
      = Some (Media (a_md5 (att ''B1'' ''cc'' (Some ''mp4'')))
          (case a_type (att ''B1'' ''cc'' (Some ''mp4'')) of None \<Rightarrow> ''mov'' | Some t \<Rightarrow> if t = [] then ''mov'' else t))"
    using t[of mediaEntry "[]" "att ''B1'' ''cc'' (Some ''mp4'')" "[]" "newConverter False"] v by blast
  then have r3: "photoMap (buildPhotoMap (newConverter False) mediaEntry) (Some ''B1'') = Some (Media (Str ''cc'') ''mp4'')"
    by (simp add: att_def)
  have "photoMap (buildPhotoMap (newConverter False) mediaEntry) (a_identifier (att ''C1'' ''dd'' None))
      = Some (Media (a_md5 (att ''C1'' ''dd'' None))
          (case a_type (att ''C1'' ''dd'' None) of None \<Rightarrow> ''m4a'' | Some t \<Rightarrow> if t = [] then ''m4a'' else t))"
    using t[of mediaEntry "[]" "att ''C1'' ''dd'' None" "[]" "newConverter False"] au by blast
  then have r4: "photoMap (buildPhotoMap (newConverter False) mediaEntry) (Some ''C1'') = Some (Media (Str ''dd'') ''m4a'')"
    by (simp add: att_def)
  have "photoMap (buildPhotoMap (newConverter False) mediaEntry) (a_identifier (att ''D1'' ''ee'' (Some ''png'')))
      = Some (Media (a_md5 (att ''D1'' ''ee'' (Some ''png''))) ''pdf'')"
    using t[of mediaEntry "[]" "att ''D1'' ''ee'' (Some ''png'')" "[]" "newConverter False"] pd by blast
  then have r5: "photoMap (buildPhotoMap (newConverter False) mediaEntry) (Some ''D1'') = Some (Media (Str ''ee'') ''pdf'')"
    by (simp add: att_def)
  have "photoMap (buildPhotoMap (newConverter False) mediaEntry) (Some ''Z9'') = photoMap (newConverter False) (Some ''Z9'')"
    using t[of mediaEntry _ _ _ "newConverter False" "Some ''Z9''"] z by blast
  then have r6: "photoMap (buildPhotoMap (newConverter False) mediaEntry) (Some ''Z9'') = None"
    by (simp add: newConverter_def)
  from r1 r2 r3 r4 r5 r6 show ?thesis by blast
qed

subsection \<open>The journal file of the archive\<close>

lemma isoDate_error: "isoDate d = Inl err \<Longrightarrow> err = RangeError"
  by (auto simp: isoDate_def split: jsdate.splits)

lemma uuidSlice_error: "uuidSlice e = Inl err \<Longrightarrow> err = TypeError"
  by (auto simp: uuidSlice_def split: option.splits)

lemma generateFilename_error:
  "generateFilename this e = Inl err \<Longrightarrow> err = TypeError \<or> err = RangeError"
  by (auto simp: generateFilename_def Let_def split: sum.splits if_splits
      dest: isoDate_error uuidSlice_error)

lemma convertStep_error:
  "convertStep dump r e = Inl err \<Longrightarrow> err = TypeError \<or> err = RangeError"
  by (auto simp: convertStep_def convertEntry_def Let_def split: sum.splits if_splits
      dest: generateFilename_error)

lemma convertEntries_error:
  "convertEntries dump r es = Inl err \<Longrightarrow> err = TypeError \<or> err = RangeError"
proof (induction es arbitrary: r)
  case Nil then show ?case by simp
next
  case (Cons e es)
  then show ?case
    by (auto split: sum.splits dest: convertStep_error)
qed

text \<open>
  Claim C10. With both libraries loaded: when the first file whose name ends in
  \<open>.json\<close> parses to a journal value without an \<open>entries\<close> array, the conversion
  succeeds, converts no entry, leaves the converter as it was and puts only the copied
  media into the output; and the error \<open>No JSON file found in ZIP\<close> is raised exactly
  when no file of the archive has a name that ends in \<open>.json\<close>.
\<close>

theorem missing_entries_array_is_an_empty_journal:
  "(hasJSZip env \<and> jsyaml env = Some dump
      \<and> filter (\<lambda>f. endsWith (name f) ''.json'') files = j # js
      \<and> jsonParse env (data j) = Some (JsonValue None) \<longrightarrow>
      convert env this files = Inr \<lparr> conv = this, outputZip = copyMedia files, converted = 0 \<rparr>)
   \<and> (hasJSZip env \<and> jsyaml env = Some dump \<longrightarrow>
      (convert env this files = Inl NoJSONFile
         \<longleftrightarrow> \<not> list_ex (\<lambda>f. endsWith (name f) ''.json'') files))"
proof (intro conjI impI)
  show "convert env this files = Inr \<lparr> conv = this, outputZip = copyMedia files, converted = 0 \<rparr>"
    if "hasJSZip env \<and> jsyaml env = Some dump
      \<and> filter (\<lambda>f. endsWith (name f) ''.json'') files = j # js
      \<and> jsonParse env (data j) = Some (JsonValue None)"
    using that by (simp add: convert_def)
  show "convert env this files = Inl NoJSONFile
         \<longleftrightarrow> \<not> list_ex (\<lambda>f. endsWith (name f) ''.json'') files"
    if h: "hasJSZip env \<and> jsyaml env = Some dump"
  proof (cases "filter (\<lambda>f. endsWith (name f) ''.json'') files")
    case Nil
    then have "\<not> list_ex (\<lambda>f. endsWith (name f) ''.json'') files"
      by (simp add: list_ex_iff filter_empty_conv)
    with Nil h show ?thesis by (simp add: convert_def)
  next
    case (Cons j js)
    then have "j \<in> set (filter (\<lambda>f. endsWith (name f) ''.json'') files)" by simp
    then have ex: "list_ex (\<lambda>f. endsWith (name f) ''.json'') files"
      by (auto simp: list_ex_iff)
    have "convert env this files \<noteq> Inl NoJSONFile"
      using h Cons convertEntries_error[of dump _ _ NoJSONFile]
      by (auto simp: convert_def split: option.splits journalData.splits)
    with ex show ?thesis by simp
  qed
qed

text \<open>
  An archive with a journal file that holds an empty object and one photo; the same
  archive with the journal file taken out.
\<close>

definition pageEnv :: environment where
  "pageEnv = \<lparr> hasJSZip = True, jsyaml = Some (\<lambda>e. ''uuid: x'' @ [newline]),
     jsonParse = (\<lambda>s. if s = ''{}'' then Some (JsonValue None) else None) \<rparr>"

definition journalFile :: zipObject where
  "journalFile = \<lparr> name = ''export/Journal.json'', dir = False, data = ''{}'' \<rparr>"

definition photoFile :: zipObject where
  "photoFile = \<lparr> name = ''export/photos/abc.jpeg'', dir = False, data = ''IMG'' \<rparr>"

lemma copyMedia_example:
  "copyMedia [journalFile, photoFile] = [(''attachments/abc.jpeg'', ''IMG'')]"
  by (simp add: copyMedia_def isMediaFile_def journalFile_def photoFile_def mediaFolders_def
      startsWith_def)

theorem missing_entries_array_witness:
  "hasJSZip pageEnv \<and> jsyaml pageEnv = Some (\<lambda>e. ''uuid: x'' @ [newline])
   \<and> filter (\<lambda>f. endsWith (name f) ''.json'') [journalFile, photoFile] = journalFile # []
   \<and> jsonParse pageEnv (data journalFile) = Some (JsonValue None)
   \<and> convert pageEnv (newConverter False) [journalFile, photoFile]
       = Inr \<lparr> conv = newConverter False, outputZip = [(''attachments/abc.jpeg'', ''IMG'')],
               converted = 0 \<rparr>
   \<and> \<not> list_ex (\<lambda>f. endsWith (name f) ''.json'') [photoFile]
   \<and> convert pageEnv (newConverter False) [photoFile] = Inl NoJSONFile"
proof -
  have a: "hasJSZip pageEnv \<and> jsyaml pageEnv = Some (\<lambda>e. ''uuid: x'' @ [newline])"
    by (simp add: pageEnv_def)
  have b: "filter (\<lambda>f. endsWith (name f) ''.json'') [journalFile, photoFile] = journalFile # []"
    by (simp add: endsWith_def journalFile_def photoFile_def)
  have c: "jsonParse pageEnv (data journalFile) = Some (JsonValue None)"
    by (simp add: pageEnv_def journalFile_def)
  have d: "\<not> list_ex (\<lambda>f. endsWith (name f) ''.json'') [photoFile]"
    by (simp add: endsWith_def photoFile_def)
  from a b c d copyMedia_example
    missing_entries_array_is_an_empty_journal
      [of pageEnv "\<lambda>e. ''uuid: x'' @ [newline]" "[journalFile, photoFile]" journalFile "[]"
          "newConverter False"]
    missing_entries_array_is_an_empty_journal
      [of pageEnv "\<lambda>e. ''uuid: x'' @ [newline]" "[photoFile]" journalFile "[]"
          "newConverter False"]
  show ?thesis by simp
qed

subsection \<open>Filenames\<close>

lemma digit_in: "digit n \<in> set ''0123456789''"
proof -
  have "n mod 10 < length ''0123456789''" by simp
  then show ?thesis unfolding digit_def by (rule nth_mem)
qed

lemma digit_not_hostile: "digit n \<notin> hostile"
  using digit_in[of n] by (auto simp: hostile_def backslash_def dquote_def)

lemma isoDate_not_hostile:
  assumes "isoDate d = Inr s"
  shows "set s \<inter> hostile = {}"
proof -
  have h: "CHR ''-'' \<notin> hostile" "CHR ''+'' \<notin> hostile"
    by (simp_all add: hostile_def backslash_def dquote_def)
  from assms show ?thesis
    by (auto simp: isoDate_def pad2_def pad4_def pad6_def digit_not_hostile h
        split: jsdate.splits if_splits)
qed

lemma set_trim: "set (trim s) \<subseteq> set s"
proof -
  have "set (trim s) = set (dropWhile isSpace (rev (dropWhile isSpace s)))"
    by (simp add: trim_def)
  also have "\<dots> \<subseteq> set (rev (dropWhile isSpace s))" by (rule set_dropWhileD[THEN subsetI]) 
  also have "\<dots> \<subseteq> set s" using set_dropWhileD by fastforce
  finally show ?thesis .
qed

lemma set_collapseSpaces: "set (collapseSpaces s) \<subseteq> insert (CHR '' '') (set s)"
proof (induction s rule: collapseSpaces.induct)
  case 1 then show ?case by simp
next
  case (2 c cs)
  show ?case
  proof (cases "isSpace c")
    case True
    with 2 have "set (collapseSpaces (dropWhile isSpace cs)) \<subseteq> insert (CHR '' '') (set (dropWhile isSpace cs))"
      by simp
    moreover have "set (dropWhile isSpace cs) \<subseteq> set cs" using set_dropWhileD by fastforce
    ultimately show ?thesis using True by auto
  next
    case False
    with 2 show ?thesis by auto
  qed
qed

lemma safeTitleOf_not_hostile: "set (safeTitleOf t) \<inter> hostile = {}"
proof -
  let ?m = "map (\<lambda>c. if c \<in> hostile then CHR ''-'' else c) t"
  have sp: "CHR '' '' \<notin> hostile" "CHR ''-'' \<notin> hostile"
    by (simp_all add: hostile_def backslash_def dquote_def)
  have "set (safeTitleOf t) \<subseteq> set (trim (collapseSpaces ?m))"
    unfolding safeTitleOf_def by (rule set_take_subset)
  also have "\<dots> \<subseteq> set (collapseSpaces ?m)" by (rule set_trim)
  also have "\<dots> \<subseteq> insert (CHR '' '') (set ?m)" by (rule set_collapseSpaces)
  finally have "set (safeTitleOf t) \<subseteq> insert (CHR '' '') (set ?m)" .
  moreover have "set ?m \<inter> hostile = {}" using sp by auto
  ultimately show ?thesis using sp by auto
qed

lemma safeTitleOf_length: "length (safeTitleOf t) \<le> 50"
  by (simp add: safeTitleOf_def)

lemma generateFilename_Inr:
  assumes "generateFilename this e = Inr (this1, fn)"
  shows "\<exists>dateStr portion suffix.
           isoDate (creationDate e) = Inr dateStr
         \<and> fn = dateStr @ '' '' @ portion @ suffix
         \<and> this1 = this\<lparr> usedFilenames := insert fn (usedFilenames this) \<rparr>
         \<and> (if truthyStr (extractTitle (entryText e))
              then portion = safeTitleOf (the (extractTitle (entryText e)))
              else \<exists>u. uuid e = Some u \<and> portion = take 8 u)
         \<and> (if dateStr @ '' '' @ portion @ ''.md'' \<in> usedFilenames this
              then \<exists>u. uuid e = Some u \<and> suffix = '' ('' @ take 8 u @ '').md''
              else suffix = ''.md'')"
proof -
  from assms obtain dateStr where d: "isoDate (creationDate e) = Inr dateStr"
    by (auto simp: generateFilename_def split: sum.splits)
  define base where "base = (if truthyStr (extractTitle (entryText e))
      then Inr (dateStr @ '' '' @ safeTitleOf (the (extractTitle (entryText e))))
      else case uuidSlice e of Inl err \<Rightarrow> Inl err | Inr u8 \<Rightarrow> Inr (dateStr @ '' '' @ u8))"
  from assms d obtain b where b: "base = Inr b"
    by (auto simp: generateFilename_def Let_def base_def split: sum.splits)
  define portion where "portion = drop (length dateStr + 1) b"
  have bp: "b = dateStr @ '' '' @ portion"
    and p: "if truthyStr (extractTitle (entryText e))
              then portion = safeTitleOf (the (extractTitle (entryText e)))
              else \<exists>u. uuid e = Some u \<and> portion = take 8 u"
    using b unfolding base_def portion_def
    by (auto simp: uuidSlice_def split: if_splits sum.splits option.splits)
  define final where "final = (if b @ ''.md'' \<in> usedFilenames this
      then case uuidSlice e of Inl err \<Rightarrow> Inl err | Inr u8 \<Rightarrow> Inr (b @ '' ('' @ u8 @ '').md'')
      else Inr (b @ ''.md''))"
  from assms d b have f: "final = Inr fn"
      and t: "this1 = this\<lparr> usedFilenames := insert fn (usedFilenames this) \<rparr>"
    unfolding final_def base_def
    by (auto simp: generateFilename_def Let_def split: sum.splits if_splits)
  define suffix where "suffix = drop (length b) fn"
  have fs: "fn = b @ suffix"
    and s: "if b @ ''.md'' \<in> usedFilenames this
              then \<exists>u. uuid e = Some u \<and> suffix = '' ('' @ take 8 u @ '').md''
              else suffix = ''.md''"
    using f unfolding final_def suffix_def
    by (auto simp: uuidSlice_def split: if_splits sum.splits option.splits)
  have "fn = dateStr @ '' '' @ portion @ suffix" using fs bp by simp
  moreover have "if dateStr @ '' '' @ portion @ ''.md'' \<in> usedFilenames this
              then \<exists>u. uuid e = Some u \<and> suffix = '' ('' @ take 8 u @ '').md''
              else suffix = ''.md''"
    using s unfolding bp by simp
  ultimately show ?thesis using d p t by blast
qed

text \<open>
  Claim C7, as the code has it. A filename that \<open>generateFilename\<close> produces is the
  date, a space, the title portion and a suffix. The date holds none of the nine
  characters. The title portion is at most 50 characters long: it is the sanitized title,
  which holds none of the nine characters, or, when the entry has no title, the first
  eight characters of the identifier as they are. The suffix is \<open>.md\<close> when the name
  with it is not yet used, and otherwise the same eight characters in parentheses before
  \<open>.md\<close>. So the whole filename holds none of the nine characters exactly when the
  identifier does not enter it (the entry has a title and the name is not yet used) or
  the first eight characters of the identifier hold none.
\<close>

theorem generateFilename_title_is_safe_and_short:
  "generateFilename this e = Inr (this1, fn) \<longrightarrow>
     (\<exists>dateStr portion.
          isoDate (creationDate e) = Inr dateStr
        \<and> set dateStr \<inter> hostile = {}
        \<and> length portion \<le> 50
        \<and> (truthyStr (extractTitle (entryText e)) \<longrightarrow>
              portion = safeTitleOf (the (extractTitle (entryText e)))
              \<and> set portion \<inter> hostile = {})
        \<and> (\<not> truthyStr (extractTitle (entryText e)) \<longrightarrow>
              (\<exists>u. uuid e = Some u \<and> portion = take 8 u))
        \<and> (dateStr @ '' '' @ portion @ ''.md'' \<notin> usedFilenames this \<longrightarrow>
              fn = dateStr @ '' '' @ portion @ ''.md'')
        \<and> (dateStr @ '' '' @ portion @ ''.md'' \<in> usedFilenames this \<longrightarrow>
              (\<exists>u. uuid e = Some u
                 \<and> fn = dateStr @ '' '' @ portion @ '' ('' @ take 8 u @ '').md''))
        \<and> (set fn \<inter> hostile = {} \<longleftrightarrow>
              (truthyStr (extractTitle (entryText e))
               \<and> dateStr @ '' '' @ portion @ ''.md'' \<notin> usedFilenames this)
              \<or> (\<exists>u. uuid e = Some u \<and> set (take 8 u) \<inter> hostile = {})))"
proof
  assume g: "generateFilename this e = Inr (this1, fn)"
  from generateFilename_Inr[OF g] obtain dateStr portion suffix where
    d: "isoDate (creationDate e) = Inr dateStr"
    and fn: "fn = dateStr @ '' '' @ portion @ suffix"
    and p: "if truthyStr (extractTitle (entryText e))
              then portion = safeTitleOf (the (extractTitle (entryText e)))
              else \<exists>u. uuid e = Some u \<and> portion = take 8 u"
    and s: "if dateStr @ '' '' @ portion @ ''.md'' \<in> usedFilenames this
              then \<exists>u. uuid e = Some u \<and> suffix = '' ('' @ take 8 u @ '').md''
              else suffix = ''.md''"
    by blast
  let ?titled = "truthyStr (extractTitle (entryText e))"
  let ?used = "dateStr @ '' '' @ portion @ ''.md'' \<in> usedFilenames this"
  have dh: "set dateStr \<inter> hostile = {}" by (rule isoDate_not_hostile[OF d])
  have len: "length portion \<le> 50"
    using p safeTitleOf_length by (auto split: if_splits)
  have ph: "?titled \<longrightarrow>
      portion = safeTitleOf (the (extractTitle (entryText e))) \<and> set portion \<inter> hostile = {}"
    using p safeTitleOf_not_hostile by (auto split: if_splits)
  have pu: "\<not> ?titled \<longrightarrow> (\<exists>u. uuid e = Some u \<and> portion = take 8 u)"
    using p by (auto split: if_splits)
  have f1: "\<not> ?used \<longrightarrow> fn = dateStr @ '' '' @ portion @ ''.md''"
    using s fn by (auto split: if_splits)
  have f2: "?used \<longrightarrow> (\<exists>u. uuid e = Some u
                 \<and> fn = dateStr @ '' '' @ portion @ '' ('' @ take 8 u @ '').md'')"
    using s fn by (auto split: if_splits)
  have plain: "CHR '' '' \<notin> hostile" "set ''.md'' \<inter> hostile = {}"
      "CHR ''('' \<notin> hostile" "set '').md'' \<inter> hostile = {}"
    by (simp_all add: hostile_def backslash_def dquote_def)
  have whole: "set fn \<inter> hostile = {} \<longleftrightarrow>
      (?titled \<and> \<not> ?used) \<or> (\<exists>u. uuid e = Some u \<and> set (take 8 u) \<inter> hostile = {})"
  proof (cases "?titled \<and> \<not> ?used")
    case True
    then have "fn = dateStr @ '' '' @ portion @ ''.md''" "set portion \<inter> hostile = {}"
      using f1 ph by auto
    then have "set fn \<inter> hostile = {}" using dh plain by auto
    with True show ?thesis by simp
  next
    case False
    then obtain u where u: "uuid e = Some u"
      and part: "portion = take 8 u \<or> suffix = '' ('' @ take 8 u @ '').md''"
      using p s by (auto split: if_splits)
    have other: "\<not> ?titled \<longrightarrow> portion = take 8 u"
      "?used \<longrightarrow> suffix = '' ('' @ take 8 u @ '').md''" "\<not> ?used \<longrightarrow> suffix = ''.md''"
      using p s u by (auto split: if_splits)
    have "set fn \<inter> hostile = {} \<longleftrightarrow> set (take 8 u) \<inter> hostile = {}"
    proof
      assume c: "set fn \<inter> hostile = {}"
      from part show "set (take 8 u) \<inter> hostile = {}"
      proof
        assume "portion = take 8 u"
        with c show ?thesis unfolding fn by auto
      next
        assume "suffix = '' ('' @ take 8 u @ '').md''"
        with c show ?thesis unfolding fn by auto
      qed
    next
      assume c: "set (take 8 u) \<inter> hostile = {}"
      have 1: "set portion \<inter> hostile = {}"
        using ph other c by (cases ?titled) auto
      have 2: "set suffix \<inter> hostile = {}"
        using other c plain by (cases ?used) auto
      show "set fn \<inter> hostile = {}" unfolding fn using dh 1 2 plain by auto
    qed
    with False u show ?thesis by auto
  qed
  show "\<exists>dateStr portion.
          isoDate (creationDate e) = Inr dateStr
        \<and> set dateStr \<inter> hostile = {}
        \<and> length portion \<le> 50
        \<and> (truthyStr (extractTitle (entryText e)) \<longrightarrow>
              portion = safeTitleOf (the (extractTitle (entryText e)))
              \<and> set portion \<inter> hostile = {})
        \<and> (\<not> truthyStr (extractTitle (entryText e)) \<longrightarrow>
              (\<exists>u. uuid e = Some u \<and> portion = take 8 u))
        \<and> (dateStr @ '' '' @ portion @ ''.md'' \<notin> usedFilenames this \<longrightarrow>
              fn = dateStr @ '' '' @ portion @ ''.md'')
        \<and> (dateStr @ '' '' @ portion @ ''.md'' \<in> usedFilenames this \<longrightarrow>
              (\<exists>u. uuid e = Some u
                 \<and> fn = dateStr @ '' '' @ portion @ '' ('' @ take 8 u @ '').md''))
        \<and> (set fn \<inter> hostile = {} \<longleftrightarrow>
              (truthyStr (extractTitle (entryText e))
               \<and> dateStr @ '' '' @ portion @ ''.md'' \<notin> usedFilenames this)
              \<or> (\<exists>u. uuid e = Some u \<and> set (take 8 u) \<inter> hostile = {}))"
    using d dh len ph pu f1 f2 whole by blast
qed

text \<open>
  The entry of the spec's example, with a heading; an entry with no text, whose name
  falls back to the identifier (with the identifier \<open>AB/CD\<close> it holds a slash); and an
  entry with a title and the identifier \<open>AB/CD\<close>.
\<close>

definition morning :: entry where
  "morning = \<lparr> uuid = Some ''0123456789ABCDEF'',
     entryText = Some (''# Morning thoughts'' @ [newline] @ ''Hello''),
     creationDate = UTCDate 2024 1 15,
     photos = None, videos = None, audios = None, pdfAttachments = None, weather = None \<rparr>"

definition untitled :: "string \<Rightarrow> entry" where
  "untitled u = \<lparr> uuid = Some u, entryText = None, creationDate = UTCDate 2024 1 15,
     photos = None, videos = None, audios = None, pdfAttachments = None, weather = None \<rparr>"

lemmas title_defs = extractTitle_def truthyStr_def headingAt_def groupFrom_def isSpace_def
  isLineTerminator_def newline_def backslash_def trim_def unescapeDayoneMarkdown_def
  escapedMarks_def stripHeadingMarks_def matchMoment_def startsWith_def momentOpen_def Let_def

lemmas file_defs = generateFilename_def isoDate_def pad2_def pad4_def pad6_def digit_def
  safeTitleOf_def hostile_def uuidSlice_def dquote_def

lemma generateFilename_morning:
  "generateFilename (newConverter False) morning
     = Inr ((newConverter False)\<lparr> usedFilenames := {''2024-01-15 Morning thoughts.md''} \<rparr>,
            ''2024-01-15 Morning thoughts.md'')"
  by (simp add: file_defs title_defs morning_def newConverter_def)

lemma generateFilename_untitled_collision:
  "generateFilename ((newConverter False)\<lparr> usedFilenames := {''2024-01-15 AB12CD34.md''} \<rparr>)
       (untitled ''AB12CD34EF56'')
     = Inr ((newConverter False)\<lparr> usedFilenames :=
               {''2024-01-15 AB12CD34 (AB12CD34).md'', ''2024-01-15 AB12CD34.md''} \<rparr>,
            ''2024-01-15 AB12CD34 (AB12CD34).md'')"
  by (simp add: file_defs title_defs untitled_def newConverter_def)


definition titled :: "string \<Rightarrow> string \<Rightarrow> entry" where
  "titled u t = \<lparr> uuid = Some u, entryText = Some t, creationDate = UTCDate 2024 1 15,
     photos = None, videos = None, audios = None, pdfAttachments = None, weather = None \<rparr>"

lemma generateFilename_titled:
  "generateFilename (newConverter False) (titled ''AB/CD'' ''hello'')
     = Inr ((newConverter False)\<lparr> usedFilenames := {''2024-01-15 hello.md''} \<rparr>,
            ''2024-01-15 hello.md'')"
  by (simp add: file_defs title_defs titled_def newConverter_def)

theorem generateFilename_witness:
  "generateFilename (newConverter False) morning
     = Inr ((newConverter False)\<lparr> usedFilenames := {''2024-01-15 Morning thoughts.md''} \<rparr>,
            ''2024-01-15 Morning thoughts.md'')
   \<and> truthyStr (extractTitle (entryText morning))
   \<and> set ''2024-01-15 Morning thoughts.md'' \<inter> hostile = {}
   \<and> generateFilename ((newConverter False)\<lparr> usedFilenames := {''2024-01-15 AB12CD34.md''} \<rparr>)
       (untitled ''AB12CD34EF56'')
     = Inr ((newConverter False)\<lparr> usedFilenames :=
               {''2024-01-15 AB12CD34 (AB12CD34).md'', ''2024-01-15 AB12CD34.md''} \<rparr>,
            ''2024-01-15 AB12CD34 (AB12CD34).md'')
   \<and> \<not> truthyStr (extractTitle (entryText (untitled ''AB12CD34EF56'')))
   \<and> set ''2024-01-15 AB12CD34 (AB12CD34).md'' \<inter> hostile = {}
   \<and> generateFilename (newConverter False) (titled ''AB/CD'' ''hello'')
     = Inr ((newConverter False)\<lparr> usedFilenames := {''2024-01-15 hello.md''} \<rparr>,
            ''2024-01-15 hello.md'')
   \<and> truthyStr (extractTitle (entryText (titled ''AB/CD'' ''hello'')))
   \<and> set ''2024-01-15 hello.md'' \<inter> hostile = {}"
proof -
  have u1: "\<exists>u. uuid morning = Some u \<and> set (take 8 u) \<inter> hostile = {}"
    by (simp add: morning_def hostile_def backslash_def dquote_def)
  have u2: "\<exists>u. uuid (untitled ''AB12CD34EF56'') = Some u \<and> set (take 8 u) \<inter> hostile = {}"
    by (simp add: untitled_def hostile_def backslash_def dquote_def)
  have t1: "truthyStr (extractTitle (entryText morning))"
    by (simp add: title_defs morning_def)
  have t2: "\<not> truthyStr (extractTitle (entryText (untitled ''AB12CD34EF56'')))"
    by (simp add: title_defs untitled_def)
  have t3: "truthyStr (extractTitle (entryText (titled ''AB/CD'' ''hello'')))"
    by (simp add: title_defs titled_def)
  have e: "usedFilenames (newConverter False) = {}"
    by (simp add: newConverter_def)
  have s1: "set ''2024-01-15 Morning thoughts.md'' \<inter> hostile = {}"
    using generateFilename_title_is_safe_and_short
      [of "newConverter False" morning
          "(newConverter False)\<lparr> usedFilenames := {''2024-01-15 Morning thoughts.md''} \<rparr>"
          "''2024-01-15 Morning thoughts.md''"]
      generateFilename_morning u1 by blast
  have s2: "set ''2024-01-15 AB12CD34 (AB12CD34).md'' \<inter> hostile = {}"
    using generateFilename_title_is_safe_and_short
      [of "(newConverter False)\<lparr> usedFilenames := {''2024-01-15 AB12CD34.md''} \<rparr>"
          "untitled ''AB12CD34EF56''"
          "(newConverter False)\<lparr> usedFilenames :=
               {''2024-01-15 AB12CD34 (AB12CD34).md'', ''2024-01-15 AB12CD34.md''} \<rparr>"
          "''2024-01-15 AB12CD34 (AB12CD34).md''"]
      generateFilename_untitled_collision u2 by blast
  have s3: "set ''2024-01-15 hello.md'' \<inter> hostile = {}"
    using generateFilename_title_is_safe_and_short
      [of "newConverter False" "titled ''AB/CD'' ''hello''"
          "(newConverter False)\<lparr> usedFilenames := {''2024-01-15 hello.md''} \<rparr>"
          "''2024-01-15 hello.md''"]
      generateFilename_titled t3 e by blast
  from generateFilename_morning generateFilename_untitled_collision generateFilename_titled
    t1 t2 t3 s1 s2 s3
  show ?thesis by blast
qed

text \<open>
  The claim as the spec states it fails on the fallback path: the identifier
  \<open>AB/CD\<close> goes into the filename with its slash.
\<close>

theorem generateFilename_keeps_hostile_identifier:
  "generateFilename (newConverter False) (untitled ''AB/CD'')
     = Inr ((newConverter False)\<lparr> usedFilenames := {''2024-01-15 AB/CD.md''} \<rparr>,
            ''2024-01-15 AB/CD.md'')
   \<and> CHR ''/'' \<in> set ''2024-01-15 AB/CD.md'' \<inter> hostile"
  by (simp add: file_defs title_defs untitled_def newConverter_def)

subsection \<open>Which fingerprint decides\<close>

lemma generateFilename_fields:
  assumes "generateFilename this e = Inr (this1, fn)"
  shows "this1 = this\<lparr> usedFilenames := insert fn (usedFilenames this) \<rparr>"
  using generateFilename_Inr[OF assms] by blast

lemma buildPhotoMap_fields:
  "allowDuplicates (buildPhotoMap this e) = allowDuplicates this"
  "usedFilenames (buildPhotoMap this e) = usedFilenames this"
  "seenEntries (buildPhotoMap this e) = seenEntries this"
  "skippedDuplicates (buildPhotoMap this e) = skippedDuplicates this"
  by (simp_all add: buildPhotoMap_def)

lemma recordEntry_fields:
  "allowDuplicates (recordEntry this e) = allowDuplicates this"
  "usedFilenames (recordEntry this e) = usedFilenames this"
  "photoMap (recordEntry this e) = photoMap this"
  "skippedDuplicates (recordEntry this e) = skippedDuplicates this"
  "seenEntries (recordEntry this e) =
     (if truthyStr (uuid e)
      then (seenEntries this)(the (uuid e) \<mapsto> hashString (orElse (entryText e) []))
      else seenEntries this)"
  by (simp_all add: recordEntry_def)

lemma convertStep_converted:
  assumes "\<not> shouldSkipDuplicate (conv r) e" "convertStep dump r e = Inr r1"
  shows "\<exists>fn. generateFilename (buildPhotoMap (conv r) e) e
               = Inr ((buildPhotoMap (conv r) e)\<lparr> usedFilenames := insert fn (usedFilenames (conv r)) \<rparr>, fn)
          \<and> conv r1 = (if allowDuplicates (conv r)
                        then (buildPhotoMap (conv r) e)\<lparr> usedFilenames := insert fn (usedFilenames (conv r)) \<rparr>
                        else recordEntry ((buildPhotoMap (conv r) e)\<lparr> usedFilenames := insert fn (usedFilenames (conv r)) \<rparr>) e)
          \<and> outputZip r1 = zipFile (outputZip r) (''entries/'' @ fn)
                (buildFrontmatter dump e @ convertContent (buildPhotoMap (conv r) e) e)
          \<and> converted r1 = converted r + 1"
proof -
  from assms obtain this1 fn where
    g: "generateFilename (buildPhotoMap (conv r) e) e = Inr (this1, fn)"
    by (auto simp: convertStep_def convertEntry_def Let_def split: sum.splits)
  have t: "this1 = (buildPhotoMap (conv r) e)\<lparr> usedFilenames := insert fn (usedFilenames (conv r)) \<rparr>"
    using generateFilename_fields[OF g] by (simp add: buildPhotoMap_fields)
  from assms g show ?thesis
    unfolding t by (auto simp: convertStep_def convertEntry_def Let_def buildPhotoMap_fields)
qed

lemma convertStep_allowDuplicates:
  "convertStep dump r e = Inr r1 \<Longrightarrow> allowDuplicates (conv r1) = allowDuplicates (conv r)"
proof (cases "shouldSkipDuplicate (conv r) e")
  case True
  then show "convertStep dump r e = Inr r1 \<Longrightarrow> ?thesis" by (auto simp: convertStep_def)
next
  case False
  assume "convertStep dump r e = Inr r1"
  from convertStep_converted[OF False this] show ?thesis
    by (auto simp: buildPhotoMap_fields recordEntry_fields split: if_splits)
qed

lemma convertStep_seenEntries:
  assumes "convertStep dump r e = Inr r1"
  shows "seenEntries (conv r1) =
     (if \<not> allowDuplicates (conv r) \<and> truthyStr (uuid e)
      then (seenEntries (conv r))(the (uuid e) \<mapsto> hashString (orElse (entryText e) []))
      else seenEntries (conv r))"
proof (cases "shouldSkipDuplicate (conv r) e")
  case True
  with assms have "seenEntries (conv r1) = seenEntries (conv r)" by (auto simp: convertStep_def)
  moreover from True have "\<not> allowDuplicates (conv r)" "truthyStr (uuid e)"
    "seenEntries (conv r) (the (uuid e)) = Some (hashString (orElse (entryText e) []))"
    by (simp_all add: shouldSkipDuplicate_iff)
  ultimately show ?thesis by (simp add: map_upd_triv)
next
  case False
  from convertStep_converted[OF False assms] obtain fn where
    c: "conv r1 = (if allowDuplicates (conv r)
                        then (buildPhotoMap (conv r) e)\<lparr> usedFilenames := insert fn (usedFilenames (conv r)) \<rparr>
                        else recordEntry ((buildPhotoMap (conv r) e)\<lparr> usedFilenames := insert fn (usedFilenames (conv r)) \<rparr>) e)"
    by blast
  show ?thesis unfolding c by (simp add: buildPhotoMap_fields recordEntry_fields)
qed

lemma convertEntries_allowDuplicates:
  "convertEntries dump r es = Inr r1 \<Longrightarrow> allowDuplicates (conv r1) = allowDuplicates (conv r)"
proof (induction es arbitrary: r)
  case Nil then show ?case by simp
next
  case (Cons e es)
  then obtain r' where s: "convertStep dump r e = Inr r'" and t: "convertEntries dump r' es = Inr r1"
    by (auto split: sum.splits)
  from Cons.IH[OF t] convertStep_allowDuplicates[OF s] show ?case by simp
qed

lemma convertEntries_other_identifiers:
  "convertEntries dump r es = Inr r1 \<Longrightarrow> \<forall>m\<in>set es. uuid m \<noteq> Some u
   \<Longrightarrow> seenEntries (conv r1) u = seenEntries (conv r) u"
proof (induction es arbitrary: r)
  case Nil then show ?case by simp
next
  case (Cons e es)
  then obtain r' where s: "convertStep dump r e = Inr r'" and t: "convertEntries dump r' es = Inr r1"
    by (auto split: sum.splits)
  from Cons.prems have "uuid e \<noteq> Some u" by simp
  then have "seenEntries (conv r') u = seenEntries (conv r) u"
    unfolding convertStep_seenEntries[OF s] by (auto simp: truthyStr_def split: option.splits)
  moreover from Cons.IH[OF t] Cons.prems have "seenEntries (conv r1) u = seenEntries (conv r') u"
    by simp
  ultimately show ?case by simp
qed

text \<open>
  Claim C1, as the code has it. With deduplication on and an entry that has an
  identifier: the entry is skipped exactly when the fingerprint recorded for its
  identifier is the fingerprint of its text; a step of the loop on the entry leaves the
  entry's own fingerprint recorded for the identifier, whether the entry was skipped or
  converted, so a conversion under the same identifier replaces the fingerprint recorded
  before; and after that step and any further entries with other identifiers, an entry
  with the same identifier is skipped exactly when its fingerprint equals the one of the
  latest entry processed under that identifier.
\<close>

theorem latest_fingerprint_decides_skipping:
  "(\<not> allowDuplicates (conv r) \<and> uuid e = Some u \<and> u \<noteq> [] \<longrightarrow>
      (shouldSkipDuplicate (conv r) e
         \<longleftrightarrow> seenEntries (conv r) u = Some (hashString (orElse (entryText e) []))))
   \<and> (\<not> allowDuplicates (conv r) \<and> uuid e = Some u \<and> u \<noteq> []
        \<and> convertStep dump r e = Inr r1 \<longrightarrow>
      seenEntries (conv r1) = (seenEntries (conv r))(u \<mapsto> hashString (orElse (entryText e) [])))
   \<and> (\<not> allowDuplicates (conv r) \<and> uuid e = Some u \<and> u \<noteq> [] \<and> uuid e2 = Some u
        \<and> convertEntries dump r (e # mid) = Inr r2 \<and> (\<forall>m\<in>set mid. uuid m \<noteq> Some u) \<longrightarrow>
      (shouldSkipDuplicate (conv r2) e2
         \<longleftrightarrow> hashString (orElse (entryText e2) []) = hashString (orElse (entryText e) [])))"
proof (intro conjI impI)
  show "shouldSkipDuplicate (conv r) e
         \<longleftrightarrow> seenEntries (conv r) u = Some (hashString (orElse (entryText e) []))"
    if "\<not> allowDuplicates (conv r) \<and> uuid e = Some u \<and> u \<noteq> []"
    using that by (simp add: shouldSkipDuplicate_iff truthyStr_def)
  show "seenEntries (conv r1) = (seenEntries (conv r))(u \<mapsto> hashString (orElse (entryText e) []))"
    if "\<not> allowDuplicates (conv r) \<and> uuid e = Some u \<and> u \<noteq> [] \<and> convertStep dump r e = Inr r1"
    using that convertStep_seenEntries[of dump r e r1] by (simp add: truthyStr_def)
  show "shouldSkipDuplicate (conv r2) e2
         \<longleftrightarrow> hashString (orElse (entryText e2) []) = hashString (orElse (entryText e) [])"
    if h: "\<not> allowDuplicates (conv r) \<and> uuid e = Some u \<and> u \<noteq> [] \<and> uuid e2 = Some u
        \<and> convertEntries dump r (e # mid) = Inr r2 \<and> (\<forall>m\<in>set mid. uuid m \<noteq> Some u)"
  proof -
    from h obtain r1 where s: "convertStep dump r e = Inr r1"
      and t: "convertEntries dump r1 mid = Inr r2"
      by (auto split: sum.splits)
    from h have "seenEntries (conv r1) u = Some (hashString (orElse (entryText e) []))"
      using convertStep_seenEntries[OF s] by (simp add: truthyStr_def)
    moreover from h have "seenEntries (conv r2) u = seenEntries (conv r1) u"
      using convertEntries_other_identifiers[OF t] by blast
    moreover from h have "\<not> allowDuplicates (conv r2)"
      using convertEntries_allowDuplicates[of dump r "e # mid" r2] by simp
    ultimately show ?thesis
      using h by (auto simp: shouldSkipDuplicate_iff truthyStr_def)
  qed
qed

text \<open>
  Entries with an identifier and a one-line text, all of one day; the run before its
  first entry; and a frontmatter that is empty.
\<close>

definition note0 :: "string \<Rightarrow> string \<Rightarrow> entry" where
  "note0 u t = \<lparr> uuid = Some u, entryText = Some t, creationDate = UTCDate 2024 1 15,
     photos = None, videos = None, audios = None, pdfAttachments = None, weather = None \<rparr>"

definition start :: "bool \<Rightarrow> run" where
  "start allow = \<lparr> conv = newConverter allow, outputZip = [], converted = 0 \<rparr>"

lemmas run_defs = convertStep_def convertEntry_def shouldSkipDuplicate_def recordEntry_def
  buildPhotoMap_def registerAll_def buildFrontmatter_def convertContent_def
  convertImageReferences_def orElse_def hashString_def hashStep_def toString16_def hexChar_def
  generateFilename_def isoDate_def pad2_def pad4_def pad6_def digit_def
  safeTitleOf_def hostile_def uuidSlice_def dquote_def
  extractTitle_def truthyStr_def headingAt_def groupFrom_def isSpace_def
  isLineTerminator_def newline_def backslash_def trim_def unescapeDayoneMarkdown_def
  escapedMarks_def stripHeadingMarks_def matchMoment_def startsWith_def momentOpen_def Let_def
  newConverter_def start_def note0_def

definition dump0 :: yamlDump where
  "dump0 = (\<lambda>e. [])"

text \<open>
  The runs after the entries (identifier, text) \<open>(U1, a)\<close>; \<open>(U1, a)\<close>,
  \<open>(U1, b)\<close>; \<open>(U1, a)\<close>, \<open>(U1, b)\<close>, \<open>(U1, a)\<close>; and \<open>(U1, a)\<close>,
  \<open>(U2, c)\<close>. The fingerprints of \<open>a\<close>, \<open>b\<close> and \<open>c\<close> are \<open>61\<close>, \<open>62\<close> and
  \<open>63\<close>.
\<close>

definition afterA :: run where
  "afterA = \<lparr> conv = \<lparr> allowDuplicates = False, photoMap = Map.empty,
                usedFilenames = {''2024-01-15 a.md''},
                seenEntries = [''U1'' \<mapsto> ''61''], skippedDuplicates = 0 \<rparr>,
     outputZip = [(''entries/2024-01-15 a.md'', ''---\<newline>---\<newline>\<newline>a'')],
     converted = 1 \<rparr>"

definition afterAB :: run where
  "afterAB = \<lparr> conv = \<lparr> allowDuplicates = False, photoMap = Map.empty,
                usedFilenames = {''2024-01-15 b.md'', ''2024-01-15 a.md''},
                seenEntries = [''U1'' \<mapsto> ''62''], skippedDuplicates = 0 \<rparr>,
     outputZip = [(''entries/2024-01-15 a.md'', ''---\<newline>---\<newline>\<newline>a''),
                  (''entries/2024-01-15 b.md'', ''---\<newline>---\<newline>\<newline>b'')],
     converted = 2 \<rparr>"

definition afterABA :: run where
  "afterABA = \<lparr> conv = \<lparr> allowDuplicates = False, photoMap = Map.empty,
                usedFilenames = {''2024-01-15 a (U1).md'', ''2024-01-15 b.md'', ''2024-01-15 a.md''},
                seenEntries = [''U1'' \<mapsto> ''61''], skippedDuplicates = 0 \<rparr>,
     outputZip = [(''entries/2024-01-15 a.md'', ''---\<newline>---\<newline>\<newline>a''),
                  (''entries/2024-01-15 b.md'', ''---\<newline>---\<newline>\<newline>b''),
                  (''entries/2024-01-15 a (U1).md'', ''---\<newline>---\<newline>\<newline>a'')],
     converted = 3 \<rparr>"

definition afterAC :: run where
  "afterAC = \<lparr> conv = \<lparr> allowDuplicates = False, photoMap = Map.empty,
                usedFilenames = {''2024-01-15 c.md'', ''2024-01-15 a.md''},
                seenEntries = [''U1'' \<mapsto> ''61'', ''U2'' \<mapsto> ''63''], skippedDuplicates = 0 \<rparr>,
     outputZip = [(''entries/2024-01-15 a.md'', ''---\<newline>---\<newline>\<newline>a''),
                  (''entries/2024-01-15 c.md'', ''---\<newline>---\<newline>\<newline>c'')],
     converted = 2 \<rparr>"

lemma run_A: "convertStep dump0 (start False) (note0 ''U1'' ''a'') = Inr afterA"
  by (simp add: run_defs dump0_def afterA_def)

lemma run_AB:
  "convertEntries dump0 (start False) [note0 ''U1'' ''a'', note0 ''U1'' ''b''] = Inr afterAB"
  by (simp add: run_defs dump0_def afterAB_def)

lemma run_ABA:
  "convertEntries dump0 (start False) [note0 ''U1'' ''a'', note0 ''U1'' ''b'', note0 ''U1'' ''a'']
     = Inr afterABA"
  by (simp add: run_defs dump0_def afterABA_def)

lemma run_AC:
  "convertEntries dump0 (start False) [note0 ''U1'' ''a'', note0 ''U2'' ''c''] = Inr afterAC"
  by (simp add: run_defs dump0_def afterAC_def)

theorem latest_fingerprint_witness:
  "\<not> allowDuplicates (conv (start False)) \<and> uuid (note0 ''U1'' ''a'') = Some ''U1'' \<and> ''U1'' \<noteq> []
   \<and> \<not> shouldSkipDuplicate (conv (start False)) (note0 ''U1'' ''a'')
   \<and> convertStep dump0 (start False) (note0 ''U1'' ''a'') = Inr afterA
   \<and> seenEntries (conv afterA) = [''U1'' \<mapsto> hashString ''a'']
   \<and> convertEntries dump0 (start False) (note0 ''U1'' ''a'' # [note0 ''U2'' ''c'']) = Inr afterAC
   \<and> list_all (\<lambda>m. uuid m \<noteq> Some ''U1'') [note0 ''U2'' ''c'']
   \<and> shouldSkipDuplicate (conv afterAC) (note0 ''U1'' ''a'')
   \<and> \<not> shouldSkipDuplicate (conv afterAC) (note0 ''U1'' ''b'')"
proof -
  have h: "\<not> allowDuplicates (conv (start False)) \<and> uuid (note0 ''U1'' ''a'') = Some ''U1'' \<and> ''U1'' \<noteq> []"
    by (simp add: start_def newConverter_def note0_def)
  have u: "uuid (note0 ''U1'' ''b'') = Some ''U1''" "\<forall>m\<in>set [note0 ''U2'' ''c'']. uuid m \<noteq> Some ''U1''"
    by (simp_all add: note0_def)
  have s: "seenEntries (conv (start False)) ''U1'' = None"
    by (simp add: start_def newConverter_def)
  have hs: "hashString (orElse (entryText (note0 ''U1'' ''b'')) []) \<noteq> hashString (orElse (entryText (note0 ''U1'' ''a'')) [])"
    by (simp add: note0_def orElse_def truthyStr_def hashString_def hashStep_def toString16_def hexChar_def)
  note t = latest_fingerprint_decides_skipping
  have 1: "\<not> shouldSkipDuplicate (conv (start False)) (note0 ''U1'' ''a'')"
    using t[of "start False" "note0 ''U1'' ''a''" "''U1''"] h s by simp
  have "seenEntries (conv afterA)
      = (seenEntries (conv (start False)))(''U1'' \<mapsto> hashString (orElse (entryText (note0 ''U1'' ''a'')) []))"
    using t[of "start False" "note0 ''U1'' ''a''" "''U1''" dump0 afterA] h run_A by blast
  then have 2: "seenEntries (conv afterA) = [''U1'' \<mapsto> hashString ''a'']"
    by (simp add: start_def newConverter_def note0_def orElse_def truthyStr_def)
  have 3: "shouldSkipDuplicate (conv afterAC) (note0 ''U1'' ''a'')"
    using t[of "start False" "note0 ''U1'' ''a''" "''U1''" dump0 afterA "note0 ''U1'' ''a''"
            "[note0 ''U2'' ''c'']" afterAC] h u run_AC by blast
  have 4: "\<not> shouldSkipDuplicate (conv afterAC) (note0 ''U1'' ''b'')"
    using t[of "start False" "note0 ''U1'' ''a''" "''U1''" dump0 afterA "note0 ''U1'' ''b''"
            "[note0 ''U2'' ''c'']" afterAC] h u run_AC hs by blast
  from h u 1 2 3 4 run_A run_AC show ?thesis by (simp add: list_all_iff)
qed

text \<open>
  The claim as the spec states it (the first fingerprint recorded for an identifier
  decides) fails on the entries \<open>(U1, a)\<close>, \<open>(U1, b)\<close>: after them the fingerprint
  recorded for \<open>U1\<close> is the one of \<open>b\<close>, so a third entry \<open>(U1, a)\<close>, whose
  fingerprint is the first one recorded, is not skipped but converted, and an entry
  \<open>(U1, b)\<close> would be skipped.
\<close>

theorem first_fingerprint_does_not_decide:
  "convertStep dump0 (start False) (note0 ''U1'' ''a'') = Inr afterA
   \<and> seenEntries (conv afterA) ''U1'' = Some (hashString ''a'')
   \<and> convertEntries dump0 (start False) [note0 ''U1'' ''a'', note0 ''U1'' ''b''] = Inr afterAB
   \<and> \<not> shouldSkipDuplicate (conv afterAB) (note0 ''U1'' ''a'')
   \<and> shouldSkipDuplicate (conv afterAB) (note0 ''U1'' ''b'')
   \<and> hashString ''b'' \<noteq> hashString ''a''
   \<and> convertEntries dump0 (start False) [note0 ''U1'' ''a'', note0 ''U1'' ''b'', note0 ''U1'' ''a'']
       = Inr afterABA
   \<and> converted afterABA = 3 \<and> skippedDuplicates (conv afterABA) = 0"
proof -
  have "seenEntries (conv afterA) ''U1'' = Some (hashString ''a'')"
    "\<not> shouldSkipDuplicate (conv afterAB) (note0 ''U1'' ''a'')"
    "shouldSkipDuplicate (conv afterAB) (note0 ''U1'' ''b'')"
    "hashString ''b'' \<noteq> hashString ''a''"
    "converted afterABA = 3" "skippedDuplicates (conv afterABA) = 0"
    by (simp_all add: afterA_def afterAB_def afterABA_def note0_def shouldSkipDuplicate_def
        orElse_def truthyStr_def hashString_def hashStep_def toString16_def hexChar_def)
  with run_A run_AB run_ABA show ?thesis by blast
qed

subsection \<open>Runs that lose or abandon entries\<close>

text \<open>
  What holds of a run with deduplication off: no entry is skipped, and every entry of a
  run that ends is counted as converted.
\<close>

lemma allowDuplicates_never_skips:
  "allowDuplicates this \<Longrightarrow> \<not> shouldSkipDuplicate this e"
  by (simp add: shouldSkipDuplicate_def)

lemma allowDuplicates_counts_every_entry:
  "allowDuplicates (conv r) \<Longrightarrow> convertEntries dump r es = Inr r1
   \<Longrightarrow> converted r1 = converted r + length es
       \<and> skippedDuplicates (conv r1) = skippedDuplicates (conv r)"
proof (induction es arbitrary: r)
  case Nil then show ?case by simp
next
  case (Cons e es)
  then obtain r' where s: "convertStep dump r e = Inr r'" and t: "convertEntries dump r' es = Inr r1"
    by (auto split: sum.splits)
  have n: "\<not> shouldSkipDuplicate (conv r) e"
    using Cons.prems(1) by (rule allowDuplicates_never_skips)
  from convertStep_converted[OF n s] Cons.prems(1)
  have c: "converted r' = converted r + 1" "skippedDuplicates (conv r') = skippedDuplicates (conv r)"
    by (auto simp: buildPhotoMap_fields)
  have "allowDuplicates (conv r')"
    using convertStep_allowDuplicates[OF s] Cons.prems(1) by simp
  from Cons.IH[OF this t] c show ?case by simp
qed

text \<open>
  An environment whose journal file parses to the given entries, and the archive that
  holds only that file.
\<close>

definition journalOf :: "entry list \<Rightarrow> environment" where
  "journalOf es = \<lparr> hasJSZip = True, jsyaml = Some dump0,
     jsonParse = (\<lambda>s. if s = ''J'' then Some (JsonValue (Some es)) else None) \<rparr>"

definition journalOnly :: "zipObject list" where
  "journalOnly = [\<lparr> name = ''Journal.json'', dir = False, data = ''J'' \<rparr>]"

lemma convert_journalOf:
  "convert (journalOf es) this journalOnly
     = convertEntries dump0 \<lparr> conv = this, outputZip = [], converted = 0 \<rparr> es"
  by (simp add: convert_def journalOf_def journalOnly_def endsWith_def copyMedia_def
      isMediaFile_def mediaFolders_def startsWith_def)

text \<open>The run after three copies of the entry \<open>(U1, a)\<close> with deduplication off.\<close>

definition afterThreeCopies :: run where
  "afterThreeCopies = \<lparr> conv = \<lparr> allowDuplicates = True, photoMap = Map.empty,
                usedFilenames = {''2024-01-15 a (U1).md'', ''2024-01-15 a.md''},
                seenEntries = Map.empty, skippedDuplicates = 0 \<rparr>,
     outputZip = [(''entries/2024-01-15 a.md'', ''---\<newline>---\<newline>\<newline>a''),
                  (''entries/2024-01-15 a (U1).md'', ''---\<newline>---\<newline>\<newline>a'')],
     converted = 3 \<rparr>"

text \<open>
  Claim C4 against the code. Three copies of one entry with deduplication off: all three
  are converted and counted, but the second and the third get the same filename (the
  name with the identifier in parentheses is not checked against the used names), so the
  third overwrites the second and the archive holds two files for three entries.
\<close>

theorem three_copies_give_two_files:
  "convert (journalOf [note0 ''U1'' ''a'', note0 ''U1'' ''a'', note0 ''U1'' ''a''])
       (newConverter True) journalOnly
     = Inr afterThreeCopies
   \<and> converted afterThreeCopies = 3
   \<and> length (filter (\<lambda>(path, d). startsWith path ''entries/'') (outputZip afterThreeCopies)) = 2"
proof -
  have "convertEntries dump0 \<lparr> conv = newConverter True, outputZip = [], converted = 0 \<rparr>
          [note0 ''U1'' ''a'', note0 ''U1'' ''a'', note0 ''U1'' ''a''] = Inr afterThreeCopies"
    by (simp add: run_defs dump0_def afterThreeCopies_def)
  moreover have "converted afterThreeCopies = 3"
    "length (filter (\<lambda>(path, d). startsWith path ''entries/'') (outputZip afterThreeCopies)) = 2"
    by (simp_all add: afterThreeCopies_def startsWith_def)
  ultimately show ?thesis by (simp add: convert_journalOf)
qed

text \<open>
  An entry with neither text nor identifier, and one whose creation date does not parse.
\<close>

definition bare :: entry where
  "bare = \<lparr> uuid = None, entryText = None, creationDate = UTCDate 2024 1 15,
     photos = None, videos = None, audios = None, pdfAttachments = None, weather = None \<rparr>"

definition undated :: entry where
  "undated = \<lparr> uuid = Some ''U9'', entryText = Some ''z'', creationDate = InvalidDate,
     photos = None, videos = None, audios = None, pdfAttachments = None, weather = None \<rparr>"

text \<open>
  Claim C6 against the code. An entry with neither text nor identifier, followed by an
  ordinary entry: \<open>entry.uuid.slice\<close> throws in \<open>generateFilename\<close>, nothing in the
  loop catches it, and the whole conversion ends with the \<open>TypeError\<close>; the second
  entry is never converted. An entry whose creation date does not parse ends the
  conversion in the same way with a \<open>RangeError\<close>.
\<close>

theorem entry_without_title_and_identifier_aborts:
  "convert (journalOf [bare, note0 ''U1'' ''a'']) (newConverter False) journalOnly = Inl TypeError
   \<and> convert (journalOf [undated, note0 ''U1'' ''a'']) (newConverter False) journalOnly
       = Inl RangeError
   \<and> convert (journalOf [note0 ''U1'' ''a'']) (newConverter False) journalOnly = Inr afterA"
proof -
  have "convertStep dump0 \<lparr> conv = newConverter False, outputZip = [], converted = 0 \<rparr> bare
      = Inl TypeError"
    by (simp add: run_defs dump0_def bare_def)
  moreover have "convertStep dump0 \<lparr> conv = newConverter False, outputZip = [], converted = 0 \<rparr> undated
      = Inl RangeError"
    by (simp add: run_defs dump0_def undated_def)
  moreover have "convertEntries dump0 \<lparr> conv = newConverter False, outputZip = [], converted = 0 \<rparr>
      [note0 ''U1'' ''a''] = Inr afterA"
    using run_A by (simp add: start_def)
  ultimately show ?thesis by (simp add: convert_journalOf)
qed

end
